theory Spec2Isabelle
  imports Main
begin

unbundle bit_operations_syntax

section \<open>The host language: strings and numbers\<close>

text \<open>
  The program is \<^verbatim>\<open>src/index.ts\<close>: a class \<^verbatim>\<open>Block\<close> with a constructor,
  \<^verbatim>\<open>calculateHash\<close> and \<^verbatim>\<open>mineBlock\<close>, and a function \<^verbatim>\<open>isValidHash\<close>.

  \<^bold>\<open>Strings\<close> are modelled as \<^typ>\<open>string\<close>, read as the UTF-8 bytes of a well-formed
  JavaScript string. Every character the program itself inspects or produces (digits,
  the quote, the backslash, control characters, hexadecimal digits) is ASCII, where a
  byte and a UTF-16 code unit are the same thing.

  \<^bold>\<open>Numbers\<close>: \<^verbatim>\<open>index\<close>, \<^verbatim>\<open>timestamp\<close> and \<^verbatim>\<open>nonce\<close> have the TypeScript type
  \<^verbatim>\<open>number\<close>, an IEEE 754 double. The model covers the integer values, as \<^typ>\<open>int\<close>: a
  field holds an integer that is a double. Two operations are applied to them:
  conversion to a string and \<^verbatim>\<open>++\<close>.
\<close>

definition digit_char :: "int \<Rightarrow> char" where
  "digit_char d = ''0123456789'' ! nat d"

function digits10 :: "int \<Rightarrow> string" where
  "digits10 n = (if n < 10 then [digit_char n] else digits10 (n div 10) @ [digit_char (n mod 10)])"
  by pat_completeness auto
termination
  by (relation "measure nat") auto

declare digits10.simps [simp del]

text \<open>
  The double nearest to a non-negative integer (round to nearest, ties to the even
  significand): below \<open>2\<^sup>5\<^sup>3\<close> the integer itself, otherwise its 53 leading bits, rounded,
  followed by zero bits.
\<close>

function bit_length :: "int \<Rightarrow> nat" where
  "bit_length n = (if n \<le> 0 then 0 else Suc (bit_length (n div 2)))"
  by pat_completeness auto
termination
  by (relation "measure nat") auto

declare bit_length.simps [simp del]

definition to_double :: "int \<Rightarrow> int" where
  "to_double v =
     (if v < 9007199254740992 then v
      else let e = bit_length v - 53;
               q = v div 2 ^ e;
               r = v mod 2 ^ e;
               half = 2 ^ (e - 1)
           in (if half < r \<or> (r = half \<and> odd q) then q + 1 else q) * 2 ^ e)"

text \<open>
  \<^verbatim>\<open>Number.prototype.toString\<close> on a positive integer \<open>x\<close> that is a double prints the
  integer with the fewest significant digits that still denotes \<open>x\<close> (that is, whose
  nearest double is \<open>x\<close>), and of those the one closest to \<open>x\<close>. With \<open>d\<close> the number
  of digits of \<open>x\<close>, the candidates with \<open>k\<close> significant digits are \<open>x\<close> rounded down
  and up to a multiple of \<open>10\<^bsup>d - k\<^esup>\<close>; \<open>k\<close> goes up from 1.
\<close>

function shortest_from :: "int \<Rightarrow> nat \<Rightarrow> nat \<Rightarrow> int" where
  "shortest_from x d k =
     (if d \<le> k then x
      else let p = 10 ^ (d - k);
               lo = (x div p) * p;
               hi = lo + p
           in if to_double lo = x \<and> to_double hi = x
                then (if x - lo \<le> hi - x then lo else hi)
              else if to_double lo = x then lo
              else if to_double hi = x then hi
              else shortest_from x d (Suc k))"
  by pat_completeness auto
termination
  by (relation "measure (\<lambda>(x, d, k). d - k)") auto

declare shortest_from.simps [simp del]

text \<open>
  The chosen integer is written with all its digits when it has at most 21 of them, and
  otherwise as its significant digits, a point after the first of them when there are
  several, and the exponent: \<^verbatim>\<open>1e+21\<close>, \<^verbatim>\<open>1.1805916207174113e+21\<close>.
\<close>

definition format_digits :: "int \<Rightarrow> string" where
  "format_digits v =
     (let ds = digits10 v;
          n = length ds
      in if n \<le> 21 then ds
         else let s = rev (dropWhile (\<lambda>c. c = CHR ''0'') (rev ds))
              in hd s # (if 1 < length s then CHR ''.'' # tl s else [])
                   @ ''e+'' @ digits10 (int n - 1))"

text \<open>
  \<^verbatim>\<open>Number.prototype.toString\<close> on an integer: a minus sign for a negative value; the
  argument is read as the double nearest to it, which changes nothing when it is a
  double already; a finite double has at most 1024 bits, and what rounds to more is
  \<^verbatim>\<open>Infinity\<close>.
\<close>

definition Number_toString_pos :: "int \<Rightarrow> string" where
  "Number_toString_pos v =
     (let x = to_double v
      in if 1024 < bit_length x then ''Infinity''
         else format_digits (shortest_from x (length (digits10 x)) 1))"

definition Number_toString :: "int \<Rightarrow> string" where
  "Number_toString n =
     (if n < 0 then CHR ''-'' # Number_toString_pos (- n) else Number_toString_pos n)"

text \<open>
  \<^verbatim>\<open>this.nonce++\<close> stores \<open>nonce + 1\<close> rounded to the nearest double, ties to the even
  significand. Up to \<open>2\<^sup>5\<^sup>3 = 9007199254740992\<close> in magnitude the sum is exact. From
  \<open>2\<^sup>5\<^sup>3\<close> to \<open>2\<^sup>5\<^sup>4\<close> doubles are the even integers, \<open>n + 1\<close> lies halfway between
  \<open>n\<close> and \<open>n + 2\<close>, and the one with the even significand wins; beyond, \<open>n + 1\<close>
  rounds back to \<open>n\<close>. In particular \<open>2\<^sup>5\<^sup>3 + 1\<close> is \<open>2\<^sup>5\<^sup>3\<close> again.
\<close>

definition js_inc :: "int \<Rightarrow> int" where
  "js_inc n =
     (if - 9007199254740992 \<le> n \<and> n < 9007199254740992 then n + 1
      else if \<bar>n\<bar> < 18014398509481984 \<and> odd (\<bar>n\<bar> div 2) then n + 2
      else n)"

text \<open>
  \<^verbatim>\<open>String.prototype.substring(start, end)\<close> with non-negative integer arguments: both
  are clamped to the length, swapped when out of order, and the characters from the
  smaller up to (not including) the larger are returned.
\<close>

definition js_substring :: "string \<Rightarrow> nat \<Rightarrow> nat \<Rightarrow> string" where
  "js_substring s start finish =
     (let len = length s;
          final_start = min start len;
          final_end = min finish len;
          lo = min final_start final_end;
          hi = max final_start final_end
      in take (hi - lo) (drop lo s))"

text \<open>
  \<^verbatim>\<open>Array.prototype.join\<close>: the elements separated by \<open>sep\<close>. \<^verbatim>\<open>Array(n)\<close> is an array of
  \<open>n\<close> empty slots, each of which \<^verbatim>\<open>join\<close> renders as the empty string.
\<close>

fun js_join :: "string \<Rightarrow> string list \<Rightarrow> string" where
  "js_join sep [] = []"
| "js_join sep [x] = x"
| "js_join sep (x # y # ys) = x @ sep @ js_join sep (y # ys)"

definition Array_join :: "nat \<Rightarrow> string \<Rightarrow> string" where
  "Array_join n sep = js_join sep (replicate n [])"

text \<open>
  \<^verbatim>\<open>JSON.stringify\<close> of a string: the string between double quotes, with the quote, the
  backslash and the control characters below \<open>0x20\<close> escaped (\<^verbatim>\<open>\b \t \n \f \r\<close> by their
  short forms, the others as \<^verbatim>\<open>\u00XX\<close> in lower-case hexadecimal).
\<close>

definition hex_digit :: "int \<Rightarrow> char" where
  "hex_digit n = ''0123456789abcdef'' ! nat n"

definition json_quote_char :: "char \<Rightarrow> string" where
  "json_quote_char c =
     (if c = CHR 0x08 then [CHR 0x5C, CHR ''b'']
      else if c = CHR 0x09 then [CHR 0x5C, CHR ''t'']
      else if c = CHR 0x0A then [CHR 0x5C, CHR ''n'']
      else if c = CHR 0x0C then [CHR 0x5C, CHR ''f'']
      else if c = CHR 0x0D then [CHR 0x5C, CHR ''r'']
      else if c = CHR 0x22 then [CHR 0x5C, CHR 0x22]
      else if c = CHR 0x5C then [CHR 0x5C, CHR 0x5C]
      else if (of_char c :: int) < 32
        then [CHR 0x5C, CHR ''u'', CHR ''0'', CHR ''0'',
              hex_digit (of_char c div 16), hex_digit (of_char c mod 16)]
      else [c])"

definition JSON_stringify :: "string \<Rightarrow> string" where
  "JSON_stringify s = [CHR 0x22] @ concat (map json_quote_char s) @ [CHR 0x22]"

section \<open>The hash function of the library\<close>

text \<open>
  Modelled from the spec: \<^verbatim>\<open>CryptoJS.SHA256(message).toString()\<close> belongs to the package
  \<^verbatim>\<open>crypto-js\<close>, which the program imports and which is not among its sources. The
  specification asks for the 256-bit member of the SHA-2 family, rendered as 64
  hexadecimal characters. The definitions below are SHA-256 as FIPS 180-4 fixes it, on
  32-bit words kept as integers modulo \<open>2\<^sup>3\<^sup>2\<close>, with the loop of one block arranged as in
  the library (the message schedule is extended inside the round loop); the result is
  written as the library's default encoder does, in lower-case hexadecimal. The round
  constants \<open>K\<close> and the initial state are the fractional parts of the cube and square
  roots of the first primes, which the library computes when it is loaded; they are given
  here by their values.
\<close>

definition add32 :: "int \<Rightarrow> int \<Rightarrow> int" where
  "add32 x y = (x + y) mod 4294967296"

definition rotr :: "nat \<Rightarrow> int \<Rightarrow> int" where
  "rotr n x = (x mod 2 ^ n) * 2 ^ (32 - n) + x div 2 ^ n"

definition shr :: "nat \<Rightarrow> int \<Rightarrow> int" where
  "shr n x = x div 2 ^ n"

definition K :: "int list" where
  "K = [1116352408, 1899447441, 3049323471, 3921009573, 961987163, 1508970993,
        2453635748, 2870763221, 3624381080, 310598401, 607225278, 1426881987,
        1925078388, 2162078206, 2614888103, 3248222580, 3835390401, 4022224774,
        264347078, 604807628, 770255983, 1249150122, 1555081692, 1996064986,
        2554220882, 2821834349, 2952996808, 3210313671, 3336571891, 3584528711,
        113926993, 338241895, 666307205, 773529912, 1294757372, 1396182291,
        1695183700, 1986661051, 2177026350, 2456956037, 2730485921, 2820302411,
        3259730800, 3345764771, 3516065817, 3600352804, 4094571909, 275423344,
        430227734, 506948616, 659060556, 883997877, 958139571, 1322822218,
        1537002063, 1747873779, 1955562222, 2024104815, 2227730452, 2361852424,
        2428436474, 2756734187, 3204031479, 3329325298]"

definition gamma0 :: "int \<Rightarrow> int" where
  "gamma0 x = rotr 7 x XOR rotr 18 x XOR shr 3 x"

definition gamma1 :: "int \<Rightarrow> int" where
  "gamma1 x = rotr 17 x XOR rotr 19 x XOR shr 10 x"

definition sigma0 :: "int \<Rightarrow> int" where
  "sigma0 a = rotr 2 a XOR rotr 13 a XOR rotr 22 a"

definition sigma1 :: "int \<Rightarrow> int" where
  "sigma1 e = rotr 6 e XOR rotr 11 e XOR rotr 25 e"

definition ch :: "int \<Rightarrow> int \<Rightarrow> int \<Rightarrow> int" where
  "ch e f g = (e AND f) XOR ((4294967295 - e) AND g)"

definition maj :: "int \<Rightarrow> int \<Rightarrow> int \<Rightarrow> int" where
  "maj a b c = (a AND b) XOR (a AND c) XOR (b AND c)"

definition schedule_word :: "int list \<Rightarrow> int list \<Rightarrow> nat \<Rightarrow> int" where
  "schedule_word M W i =
     (if i < 16 then M ! i
      else add32 (add32 (add32 (gamma0 (W ! (i - 15))) (W ! (i - 7))) (gamma1 (W ! (i - 2))))
             (W ! (i - 16)))"

type_synonym sha_state = "int \<times> int \<times> int \<times> int \<times> int \<times> int \<times> int \<times> int"

fun sha_round :: "int list \<Rightarrow> sha_state \<times> int list \<Rightarrow> nat \<Rightarrow> sha_state \<times> int list" where
  "sha_round M ((a, b, c, d, e, f, g, h), W) i =
     (let wi = schedule_word M W i;
          t1 = add32 (add32 (add32 (add32 h (sigma1 e)) (ch e f g)) (K ! i)) wi;
          t2 = add32 (sigma0 a) (maj a b c)
      in ((add32 t1 t2, a, b, c, add32 d t1, e, f, g), W @ [wi]))"

text \<open>One block: the 64 rounds \<^verbatim>\<open>for (var i = 0; i < 64; i++)\<close>, then the sum with the old state.\<close>

fun process_block :: "sha_state \<Rightarrow> int list \<Rightarrow> sha_state" where
  "process_block (a, b, c, d, e, f, g, h) M =
     (case fst (foldl (sha_round M) ((a, b, c, d, e, f, g, h), []) [0..<64]) of
        (a', b', c', d', e', f', g', h') \<Rightarrow>
          (add32 a a', add32 b b', add32 c c', add32 d d',
           add32 e e', add32 f f', add32 g g', add32 h h'))"

function process_all :: "sha_state \<Rightarrow> int list \<Rightarrow> sha_state" where
  "process_all s ws =
     (if length ws < 16 then s
      else process_all (process_block s (take 16 ws)) (drop 16 ws))"
  by pat_completeness auto
termination
  by (relation "measure (\<lambda>(s, ws). length ws)") auto

declare process_all.simps [simp del]

text \<open>
  Padding: the byte \<open>0x80\<close>, zero bytes up to 56 modulo 64, and the bit length of the
  message as a 64-bit big-endian integer. Then the bytes are read as big-endian words.
\<close>

definition sha_pad :: "int list \<Rightarrow> int list" where
  "sha_pad bs =
     bs @ [128] @ replicate ((119 - length bs mod 64) mod 64) 0
        @ map (\<lambda>i. (8 * int (length bs)) div 256 ^ i mod 256) [7, 6, 5, 4, 3, 2, 1, 0]"

fun be_words :: "int list \<Rightarrow> int list" where
  "be_words (b0 # b1 # b2 # b3 # bs) =
     (((b0 * 256 + b1) * 256 + b2) * 256 + b3) # be_words bs"
| "be_words _ = []"

definition H_init :: sha_state where
  "H_init = (1779033703, 3144134277, 1013904242, 2773480762,
             1359893119, 2600822924, 528734635, 1541459225)"

definition hex_word :: "int \<Rightarrow> string" where
  "hex_word w = map (\<lambda>i. hex_digit (w div 16 ^ i mod 16)) [7, 6, 5, 4, 3, 2, 1, 0]"

definition SHA256_toString :: "string \<Rightarrow> string" where
  "SHA256_toString message =
     (case process_all H_init (be_words (sha_pad (map of_char message))) of
        (a, b, c, d, e, f, g, h) \<Rightarrow> concat (map hex_word [a, b, c, d, e, f, g, h]))"

section \<open>The program\<close>

text \<open>\<^verbatim>\<open>const DIFFICULTY = 4\<close> (line 4).\<close>

definition DIFFICULTY :: nat where
  "DIFFICULTY = 4"

text \<open>The fields of \<^verbatim>\<open>class Block\<close> (lines 10 to 15), in the order of the source.\<close>

record Block =
  index :: int
  timestamp :: int
  data :: string
  previousHash :: string
  hash :: string
  nonce :: int

text \<open>
  \<^verbatim>\<open>calculateHash\<close> (lines 30 to 38). \<^verbatim>\<open>+\<close> associates to the left; its first use has
  a number on the left and a string on the right and so, like all later ones, is string
  concatenation after conversion of the number.
\<close>

definition calculateHash :: "Block \<Rightarrow> string" where
  "calculateHash b =
     SHA256_toString
       (Number_toString (index b) @ previousHash b @ Number_toString (timestamp b)
          @ JSON_stringify (data b) @ Number_toString (nonce b))"

text \<open>
  The constructor (lines 17 to 24). The third parameter is optional (\<open>None\<close> when the
  caller leaves it out) with the default of the source; \<open>now\<close> is what \<^verbatim>\<open>Date.now()\<close>
  returns. The field \<^verbatim>\<open>hash\<close> is written last; \<^verbatim>\<open>calculateHash\<close> does not read it, so its
  content before that is immaterial.
\<close>

definition Block_new :: "int \<Rightarrow> string \<Rightarrow> string option \<Rightarrow> int \<Rightarrow> Block" where
  "Block_new index' data' previousHash' now =
     (let this = \<lparr>index = index', timestamp = now, data = data',
                  previousHash = (case previousHash' of None \<Rightarrow> [] | Some p \<Rightarrow> p),
                  hash = [], nonce = 0\<rparr>
      in this\<lparr>hash := calculateHash this\<rparr>)"

text \<open>\<^verbatim>\<open>isValidHash\<close> (lines 58 to 60).\<close>

definition isValidHash :: "string \<Rightarrow> bool" where
  "isValidHash h \<longleftrightarrow> js_substring h 0 DIFFICULTY = Array_join (DIFFICULTY + 1) ''0''"

text \<open>
  \<^verbatim>\<open>mineBlock\<close> (lines 45 to 52). The body of the loop (lines 48 and 49) first, then the
  loop. The loop may run forever, so the method is a partial function: \<open>None\<close> means
  that the call does not return. The two \<^verbatim>\<open>console.log\<close> lines write to the console and
  touch no field; they are left out.
\<close>

definition mineBlock_body :: "Block \<Rightarrow> Block" where
  "mineBlock_body this =
     (let this1 = this\<lparr>nonce := js_inc (nonce this)\<rparr>
      in this1\<lparr>hash := calculateHash this1\<rparr>)"

partial_function (option) mineBlock :: "Block \<Rightarrow> Block option" where
  "mineBlock this =
     (if js_substring (hash this) 0 DIFFICULTY \<noteq> Array_join (DIFFICULTY + 1) ''0''
      then mineBlock (mineBlock_body this)
      else Some this)"

declare mineBlock.simps [code]

text \<open>
  Blocks are objects: a variable holds a reference, and \<^verbatim>\<open>r.mineBlock()\<close> runs the method
  on the object that \<open>r\<close> refers to and leaves its result in that object.
\<close>

type_synonym store = "nat \<Rightarrow> Block option"

definition mineBlock_at :: "store \<Rightarrow> nat \<Rightarrow> store option" where
  "mineBlock_at st r =
     (case st r of
        None \<Rightarrow> None
      | Some this \<Rightarrow>
          (case mineBlock this of
             None \<Rightarrow> None
           | Some this' \<Rightarrow> Some (st(r \<mapsto> this'))))"

section \<open>Vocabulary of the specification\<close>

text \<open>
  The fingerprint that corresponds to a nonce \<open>n\<close> for a block: what \<^verbatim>\<open>calculateHash\<close>
  returns once the field \<^verbatim>\<open>nonce\<close> holds \<open>n\<close> and the other fields are as they are.
\<close>

definition fingerprint_at :: "Block \<Rightarrow> int \<Rightarrow> string" where
  "fingerprint_at b n = calculateHash (b\<lparr>nonce := n\<rparr>)"

definition is_hex_char :: "char \<Rightarrow> bool" where
  "is_hex_char c \<longleftrightarrow> c \<in> set ''0123456789abcdef''"

text \<open>
  Reading the two serializations back. \<^verbatim>\<open>JSON.parse\<close> on a string literal, for the escapes
  that \<^verbatim>\<open>JSON.stringify\<close> writes: a backslash introduces a short escape or \<^verbatim>\<open>u\<close> and four
  hexadecimal digits; a bare quote or control character is an error. And the value of a
  string of decimal digits.
\<close>

definition hex_value :: "char \<Rightarrow> int" where
  "hex_value c = (if (97::int) \<le> of_char c then of_char c - 87 else of_char c - 48)"

fun json_unescape :: "string \<Rightarrow> string option" where
  "json_unescape [] = Some []"
| "json_unescape (c # cs) =
     (if c = CHR 0x5C then
        (case cs of
           [] \<Rightarrow> None
         | e # r \<Rightarrow>
             if e = CHR ''u'' then
               (if length r < 4 then None
                else let v = ((hex_value (r ! 0) * 16 + hex_value (r ! 1)) * 16
                               + hex_value (r ! 2)) * 16 + hex_value (r ! 3)
                     in if v < 256 then map_option ((#) (char_of v)) (json_unescape (drop 4 r))
                        else None)
             else if e = CHR ''b'' then map_option ((#) (CHR 0x08)) (json_unescape r)
             else if e = CHR ''t'' then map_option ((#) (CHR 0x09)) (json_unescape r)
             else if e = CHR ''n'' then map_option ((#) (CHR 0x0A)) (json_unescape r)
             else if e = CHR ''f'' then map_option ((#) (CHR 0x0C)) (json_unescape r)
             else if e = CHR ''r'' then map_option ((#) (CHR 0x0D)) (json_unescape r)
             else if e = CHR 0x22 \<or> e = CHR 0x5C then map_option ((#) e) (json_unescape r)
             else None)
      else if c = CHR 0x22 \<or> (of_char c :: int) < 32 then None
      else map_option ((#) c) (json_unescape cs))"

definition JSON_parse_string :: "string \<Rightarrow> string option" where
  "JSON_parse_string s =
     (if 2 \<le> length s \<and> hd s = CHR 0x22 \<and> last s = CHR 0x22
      then json_unescape (butlast (tl s)) else None)"

definition decimal_value :: "string \<Rightarrow> int" where
  "decimal_value ds = foldl (\<lambda>a c. 10 * a + (of_char c - 48)) 0 ds"

text \<open>
  The mining algorithm in the words of the specification (section 4.2), to be compared
  with \<^const>\<open>mineBlock\<close>. The difficulty predicate: the fingerprint starts with
  \<open>difficulty\<close> copies of the character 0. Step 1: set the nonce to 0 and compute the
  fingerprint of the block's fields with this nonce. Step 2: while the fingerprint does
  not satisfy the predicate, increment the nonce by 1 and recompute the fingerprint; the
  nonce of the specification is an integer counter, so the increment is that of the
  integers. Step 3: stop with these values in the block.
\<close>

definition spec_is_valid :: "string \<Rightarrow> bool" where
  "spec_is_valid fingerprint \<longleftrightarrow>
     take DIFFICULTY fingerprint = replicate DIFFICULTY (CHR ''0'')"

definition spec_step :: "Block \<Rightarrow> Block" where
  "spec_step b =
     (let b1 = b\<lparr>nonce := nonce b + 1\<rparr>
      in b1\<lparr>hash := calculateHash b1\<rparr>)"

partial_function (option) spec_search :: "Block \<Rightarrow> Block option" where
  "spec_search b =
     (if \<not> spec_is_valid (hash b) then spec_search (spec_step b) else Some b)"

definition spec_mining :: "Block \<Rightarrow> Block option" where
  "spec_mining b =
     (let b0 = b\<lparr>nonce := 0\<rparr>
      in spec_search (b0\<lparr>hash := calculateHash b0\<rparr>))"

section \<open>Example blocks\<close>

text \<open>
  The first block of the driver, \<^verbatim>\<open>new Block(0, "Genesis Block", "0")\<close>, built at the
  clock reading 1700000036733, and the same object after \<^verbatim>\<open>mineBlock\<close>.
\<close>

definition genesis :: Block where
  "genesis = Block_new 0 ''Genesis Block'' (Some ''0'') 1700000036733"

definition genesis_mined :: Block where
  "genesis_mined =
     \<lparr>index = 0, timestamp = 1700000036733, data = ''Genesis Block'', previousHash = ''0'',
      hash = ''000072c7a007339a9a9f39ad523385ef96046eead6462accbef9fce984e3f558'',
      nonce = 2\<rparr>"

text \<open>
  The mined block after the assignment \<^verbatim>\<open>data = "Tampered Data!"\<close> that the driver makes
  to its last block (line 108).
\<close>

definition tampered :: Block where
  "tampered = genesis_mined\<lparr>data := ''Tampered Data!''\<rparr>"

text \<open>
  A block with the fields of the first one whose nonce has reached \<open>2\<^sup>5\<^sup>3\<close>, with the
  hash of exactly these fields.
\<close>

definition saturated :: Block where
  "saturated =
     \<lparr>index = 0, timestamp = 1700000036733, data = ''Genesis Block'', previousHash = ''0'',
      hash = ''9bff6057bbb400ee1cf0ee954af1e500f1cb60bad7361d6edf5fa02bbf04979c'',
      nonce = 9007199254740992\<rparr>"

text \<open>
  A block that exercises the conversions: a negative index, a timestamp of \<open>2\<^sup>5\<^sup>6\<close> and a
  nonce of \<open>2\<^sup>7\<^sup>0\<close>, and data with every kind of character that \<^verbatim>\<open>JSON.stringify\<close>
  distinguishes: the five with a short escape, the quote, the backslash, two other
  control characters, DEL, the two bytes of a non-ASCII letter, and plain letters.
\<close>

definition awkward :: Block where
  "awkward =
     \<lparr>index = - 7, timestamp = 72057594037927936,
      data = ''a'' @ [CHR 0x08, CHR 0x09, CHR 0x0A, CHR 0x0C, CHR 0x0D, CHR 0x22, CHR 0x5C,
                     CHR 0x01, CHR 0x1F, CHR 0x7F, CHR 0xC3, CHR 0xA9] @ ''z'',
      previousHash = ''0'', hash = [], nonce = 1180591620717411303424\<rparr>"

text \<open>A store with two objects.\<close>

definition two_blocks :: store where
  "two_blocks = (\<lambda>r. None)(0 \<mapsto> genesis, 1 \<mapsto> tampered)"

section \<open>The validity test and the loop\<close>

lemma Array_join_five: "Array_join 5 ''0'' = ''0000''"
  by (simp add: Array_join_def numeral_eq_Suc)

lemma js_substring_prefix: "js_substring s 0 n = take n s"
  by (simp add: js_substring_def Let_def min_def max_def)

lemma isValidHash_iff: "isValidHash h \<longleftrightarrow> take 4 h = ''0000''"
  by (simp add: isValidHash_def Array_join_five js_substring_prefix DIFFICULTY_def)

lemma spec_is_valid_eq: "spec_is_valid h = isValidHash h"
  by (simp add: isValidHash_iff spec_is_valid_def DIFFICULTY_def numeral_eq_Suc)

lemma mineBlock_unfold:
  "mineBlock b = (if isValidHash (hash b) then Some b else mineBlock (mineBlock_body b))"
  by (subst mineBlock.simps) (simp add: isValidHash_def)

lemma spec_search_unfold:
  "spec_search b = (if isValidHash (hash b) then Some b else spec_search (spec_step b))"
  by (subst spec_search.simps) (simp add: spec_is_valid_eq)

lemma calculateHash_hash_update: "calculateHash (b\<lparr>hash := h\<rparr>) = calculateHash b"
  by (simp add: calculateHash_def)

lemma fingerprint_at_nonce: "fingerprint_at b (nonce b) = calculateHash b"
  by (simp add: fingerprint_at_def)

lemma body_fields:
  "index (mineBlock_body b) = index b"
  "timestamp (mineBlock_body b) = timestamp b"
  "data (mineBlock_body b) = data b"
  "previousHash (mineBlock_body b) = previousHash b"
  "nonce (mineBlock_body b) = js_inc (nonce b)"
  "hash (mineBlock_body b) = calculateHash (mineBlock_body b)"
  by (simp_all add: mineBlock_body_def Let_def calculateHash_hash_update)

lemma body_frame: "mineBlock_body b = b\<lparr>nonce := nonce (mineBlock_body b), hash := hash (mineBlock_body b)\<rparr>"
  by (simp add: mineBlock_body_def Let_def)

text \<open>The state after \<open>k\<close> runs of the loop body.\<close>

lemma iter_frame:
  "(mineBlock_body ^^ k) b = b\<lparr>nonce := nonce ((mineBlock_body ^^ k) b), hash := hash ((mineBlock_body ^^ k) b)\<rparr>"
proof (induction k)
  case 0
  show ?case by simp
next
  case (Suc k)
  let ?c = "(mineBlock_body ^^ k) b"
  have "mineBlock_body ?c = ?c\<lparr>nonce := nonce (mineBlock_body ?c), hash := hash (mineBlock_body ?c)\<rparr>"
    by (rule body_frame)
  also have "\<dots> = b\<lparr>nonce := nonce (mineBlock_body ?c), hash := hash (mineBlock_body ?c)\<rparr>"
    by (subst Suc.IH) simp
  finally show ?case by simp
qed

lemma iter_nonce: "nonce ((mineBlock_body ^^ k) b) = (js_inc ^^ k) (nonce b)"
  by (induction k) (simp_all add: body_fields)

lemma iter_hash: "0 < k \<Longrightarrow> hash ((mineBlock_body ^^ k) b) = calculateHash ((mineBlock_body ^^ k) b)"
  by (cases k) (simp_all add: body_fields)

lemma iter_calculateHash:
  "calculateHash ((mineBlock_body ^^ k) b) = fingerprint_at b ((js_inc ^^ k) (nonce b))"
proof -
  have "calculateHash ((mineBlock_body ^^ k) b)
      = calculateHash (b\<lparr>nonce := nonce ((mineBlock_body ^^ k) b), hash := hash ((mineBlock_body ^^ k) b)\<rparr>)"
    by (subst iter_frame) simp
  also have "\<dots> = fingerprint_at b (nonce ((mineBlock_body ^^ k) b))"
    by (simp add: calculateHash_hash_update fingerprint_at_def)
  finally show ?thesis by (simp add: iter_nonce)
qed

lemma iter_hash_fingerprint:
  "0 < k \<Longrightarrow> hash ((mineBlock_body ^^ k) b) = fingerprint_at b ((js_inc ^^ k) (nonce b))"
  by (simp add: iter_hash iter_calculateHash)

text \<open>
  The loop returns the first state of the sequence \<open>b, body b, body (body b), \<dots>\<close> whose
  stored hash passes the test, and does not return when there is none.
\<close>

lemma mineBlock_first_valid:
  "isValidHash (hash ((mineBlock_body ^^ k) b)) \<Longrightarrow>
   (\<forall>j<k. \<not> isValidHash (hash ((mineBlock_body ^^ j) b))) \<Longrightarrow>
   mineBlock b = Some ((mineBlock_body ^^ k) b)"
proof (induction k arbitrary: b)
  case 0
  then show ?case by (subst mineBlock_unfold) simp
next
  case (Suc k)
  from Suc.prems(2) have first: "\<not> isValidHash (hash b)"
    by (metis funpow_0 zero_less_Suc)
  have later: "\<forall>j<k. \<not> isValidHash (hash ((mineBlock_body ^^ j) (mineBlock_body b)))"
  proof (intro allI impI)
    fix j assume "j < k"
    then have "Suc j < Suc k" by simp
    with Suc.prems(2) have "\<not> isValidHash (hash ((mineBlock_body ^^ Suc j) b))"
      by blast
    then show "\<not> isValidHash (hash ((mineBlock_body ^^ j) (mineBlock_body b)))"
      by (simp add: funpow_swap1)
  qed
  have "isValidHash (hash ((mineBlock_body ^^ k) (mineBlock_body b)))"
    using Suc.prems(1) by (simp add: funpow_swap1)
  from Suc.IH [OF this later] have "mineBlock (mineBlock_body b) = Some ((mineBlock_body ^^ Suc k) b)"
    by (simp add: funpow_swap1)
  with first show ?case by (subst mineBlock_unfold) simp
qed

lemma spec_search_first_valid:
  "isValidHash (hash ((spec_step ^^ k) b)) \<Longrightarrow>
   (\<forall>j<k. \<not> isValidHash (hash ((spec_step ^^ j) b))) \<Longrightarrow>
   spec_search b = Some ((spec_step ^^ k) b)"
proof (induction k arbitrary: b)
  case 0
  then show ?case by (subst spec_search_unfold) simp
next
  case (Suc k)
  from Suc.prems(2) have first: "\<not> isValidHash (hash b)"
    by (metis funpow_0 zero_less_Suc)
  have later: "\<forall>j<k. \<not> isValidHash (hash ((spec_step ^^ j) (spec_step b)))"
  proof (intro allI impI)
    fix j assume "j < k"
    then have "Suc j < Suc k" by simp
    with Suc.prems(2) have "\<not> isValidHash (hash ((spec_step ^^ Suc j) b))"
      by blast
    then show "\<not> isValidHash (hash ((spec_step ^^ j) (spec_step b)))"
      by (simp add: funpow_swap1)
  qed
  have "isValidHash (hash ((spec_step ^^ k) (spec_step b)))"
    using Suc.prems(1) by (simp add: funpow_swap1)
  from Suc.IH [OF this later] have "spec_search (spec_step b) = Some ((spec_step ^^ Suc k) b)"
    by (simp add: funpow_swap1)
  with first show ?case by (subst spec_search_unfold) simp
qed

lemma mineBlock_Some_iter:
  assumes "mineBlock b = Some b'"
  shows "\<exists>k. b' = (mineBlock_body ^^ k) b \<and> isValidHash (hash b') \<and>
             (\<forall>j<k. \<not> isValidHash (hash ((mineBlock_body ^^ j) b)))"
proof (rule mineBlock.raw_induct
    [where P = "\<lambda>b b'. \<exists>k. b' = (mineBlock_body ^^ k) b \<and> isValidHash (hash b') \<and>
                    (\<forall>j<k. \<not> isValidHash (hash ((mineBlock_body ^^ j) b)))", OF _ assms])
  fix mine :: "Block \<Rightarrow> Block option" and this y :: Block
  assume 1: "\<And>x y. mine x = Some y \<Longrightarrow>
      \<exists>k. y = (mineBlock_body ^^ k) x \<and> isValidHash (hash y) \<and>
          (\<forall>j<k. \<not> isValidHash (hash ((mineBlock_body ^^ j) x)))"
    and 2: "(if js_substring (hash this) 0 DIFFICULTY \<noteq> Array_join (DIFFICULTY + 1) ''0'' then mine (mineBlock_body this) else Some this) = Some y"
  show "\<exists>k. y = (mineBlock_body ^^ k) this \<and> isValidHash (hash y) \<and>
          (\<forall>j<k. \<not> isValidHash (hash ((mineBlock_body ^^ j) this)))"
  proof (cases "isValidHash (hash this)")
    case True
    with 2 have "y = this" by (simp add: isValidHash_def)
    with True show ?thesis by (intro exI [of _ 0]) simp
  next
    case False
    with 2 have "mine (mineBlock_body this) = Some y" by (simp add: isValidHash_def)
    from 1 [OF this] obtain k where k:
      "y = (mineBlock_body ^^ k) (mineBlock_body this)" "isValidHash (hash y)"
      "\<forall>j<k. \<not> isValidHash (hash ((mineBlock_body ^^ j) (mineBlock_body this)))"
      by blast
    have "\<forall>j<Suc k. \<not> isValidHash (hash ((mineBlock_body ^^ j) this))"
    proof (intro allI impI)
      fix j assume "j < Suc k"
      show "\<not> isValidHash (hash ((mineBlock_body ^^ j) this))"
      proof (cases j)
        case 0
        with False show ?thesis by simp
      next
        case (Suc i)
        with \<open>j < Suc k\<close> k(3) show ?thesis by (simp add: funpow_swap1)
      qed
    qed
    with k(1,2) show ?thesis by (intro exI [of _ "Suc k"]) (simp add: funpow_swap1)
  qed
qed

lemma spec_search_Some_iter:
  assumes "spec_search b = Some b'"
  shows "\<exists>k. b' = (spec_step ^^ k) b \<and> isValidHash (hash b') \<and>
             (\<forall>j<k. \<not> isValidHash (hash ((spec_step ^^ j) b)))"
proof (rule spec_search.raw_induct
    [where P = "\<lambda>b b'. \<exists>k. b' = (spec_step ^^ k) b \<and> isValidHash (hash b') \<and>
                    (\<forall>j<k. \<not> isValidHash (hash ((spec_step ^^ j) b)))", OF _ assms])
  fix search :: "Block \<Rightarrow> Block option" and this y :: Block
  assume 1: "\<And>x y. search x = Some y \<Longrightarrow>
      \<exists>k. y = (spec_step ^^ k) x \<and> isValidHash (hash y) \<and>
          (\<forall>j<k. \<not> isValidHash (hash ((spec_step ^^ j) x)))"
    and 2: "(if \<not> spec_is_valid (hash this) then search (spec_step this) else Some this) = Some y"
  show "\<exists>k. y = (spec_step ^^ k) this \<and> isValidHash (hash y) \<and>
          (\<forall>j<k. \<not> isValidHash (hash ((spec_step ^^ j) this)))"
  proof (cases "isValidHash (hash this)")
    case True
    with 2 have "y = this" by (simp add: spec_is_valid_eq)
    with True show ?thesis by (intro exI [of _ 0]) simp
  next
    case False
    with 2 have "search (spec_step this) = Some y"
      by (simp add: spec_is_valid_eq)
    from 1 [OF this] obtain k where k:
      "y = (spec_step ^^ k) (spec_step this)" "isValidHash (hash y)"
      "\<forall>j<k. \<not> isValidHash (hash ((spec_step ^^ j) (spec_step this)))"
      by blast
    have "\<forall>j<Suc k. \<not> isValidHash (hash ((spec_step ^^ j) this))"
    proof (intro allI impI)
      fix j assume "j < Suc k"
      show "\<not> isValidHash (hash ((spec_step ^^ j) this))"
      proof (cases j)
        case 0
        with False show ?thesis by simp
      next
        case (Suc i)
        with \<open>j < Suc k\<close> k(3) show ?thesis by (simp add: funpow_swap1)
      qed
    qed
    with k(1,2) show ?thesis by (intro exI [of _ "Suc k"]) (simp add: funpow_swap1)
  qed
qed

lemma first_valid_exists:
  assumes "isValidHash (hash ((mineBlock_body ^^ k) b))"
  shows "\<exists>m\<le>k. isValidHash (hash ((mineBlock_body ^^ m) b)) \<and>
               (\<forall>j<m. \<not> isValidHash (hash ((mineBlock_body ^^ j) b)))"
proof -
  define m where "m = (LEAST i. isValidHash (hash ((mineBlock_body ^^ i) b)))"
  have "isValidHash (hash ((mineBlock_body ^^ m) b))"
    unfolding m_def using assms by (rule LeastI)
  moreover have "m \<le> k"
    unfolding m_def using assms by (rule Least_le)
  moreover have "\<forall>j<m. \<not> isValidHash (hash ((mineBlock_body ^^ j) b))"
    unfolding m_def using not_less_Least by blast
  ultimately show ?thesis by blast
qed

lemma spec_first_valid_exists:
  assumes "isValidHash (hash ((spec_step ^^ k) b))"
  shows "\<exists>m\<le>k. isValidHash (hash ((spec_step ^^ m) b)) \<and>
               (\<forall>j<m. \<not> isValidHash (hash ((spec_step ^^ j) b)))"
proof -
  define m where "m = (LEAST i. isValidHash (hash ((spec_step ^^ i) b)))"
  have "isValidHash (hash ((spec_step ^^ m) b))"
    unfolding m_def using assms by (rule LeastI)
  moreover have "m \<le> k"
    unfolding m_def using assms by (rule Least_le)
  moreover have "\<forall>j<m. \<not> isValidHash (hash ((spec_step ^^ j) b))"
    unfolding m_def using not_less_Least by blast
  ultimately show ?thesis by blast
qed

lemma spec_step_frame:
  "spec_step b = b\<lparr>nonce := nonce (spec_step b), hash := hash (spec_step b)\<rparr>"
  by (simp add: spec_step_def Let_def)

lemma spec_iter_frame:
  "(spec_step ^^ k) b = b\<lparr>nonce := nonce ((spec_step ^^ k) b), hash := hash ((spec_step ^^ k) b)\<rparr>"
proof (induction k)
  case 0
  show ?case by simp
next
  case (Suc k)
  let ?c = "(spec_step ^^ k) b"
  have "spec_step ?c = ?c\<lparr>nonce := nonce (spec_step ?c), hash := hash (spec_step ?c)\<rparr>"
    by (rule spec_step_frame)
  also have "\<dots> = b\<lparr>nonce := nonce (spec_step ?c), hash := hash (spec_step ?c)\<rparr>"
    by (subst Suc.IH) simp
  finally show ?case by simp
qed

lemma mineBlock_returns_iff:
  "(\<exists>b'. mineBlock b = Some b') \<longleftrightarrow> (\<exists>k. isValidHash (hash ((mineBlock_body ^^ k) b)))"
proof
  assume "\<exists>b'. mineBlock b = Some b'"
  then obtain b' where "mineBlock b = Some b'" ..
  from mineBlock_Some_iter [OF this] show "\<exists>k. isValidHash (hash ((mineBlock_body ^^ k) b))"
    by blast
next
  assume "\<exists>k. isValidHash (hash ((mineBlock_body ^^ k) b))"
  then obtain k where "isValidHash (hash ((mineBlock_body ^^ k) b))" ..
  from first_valid_exists [OF this] obtain m where
    "isValidHash (hash ((mineBlock_body ^^ m) b))"
    "\<forall>j<m. \<not> isValidHash (hash ((mineBlock_body ^^ j) b))"
    by blast
  from mineBlock_first_valid [OF this] show "\<exists>b'. mineBlock b = Some b'" ..
qed

lemma mineBlock_result_valid: "mineBlock b = Some b' \<Longrightarrow> isValidHash (hash b')"
  using mineBlock_Some_iter by blast

lemma mineBlock_valid_noop: "isValidHash (hash b) \<Longrightarrow> mineBlock b = Some b"
  by (subst mineBlock_unfold) simp

lemma mineBlock_frame:
  "mineBlock b = Some b' \<Longrightarrow> b' = b\<lparr>nonce := nonce b', hash := hash b'\<rparr>"
  using mineBlock_Some_iter [of b b'] iter_frame by metis

lemma mineBlock_consistent:
  assumes "mineBlock b = Some b'" and "hash b = calculateHash b \<or> \<not> isValidHash (hash b)"
  shows "hash b' = calculateHash b'"
proof -
  from mineBlock_Some_iter [OF assms(1)] obtain k where k:
    "b' = (mineBlock_body ^^ k) b" "isValidHash (hash b')" by blast
  show ?thesis
  proof (cases k)
    case 0
    with k assms(2) show ?thesis by auto
  next
    case (Suc i)
    with k(1) show ?thesis using iter_hash [of k b] by simp
  qed
qed

section \<open>The increment\<close>

lemma js_inc_exact: "- 9007199254740992 \<le> n \<Longrightarrow> n < 9007199254740992 \<Longrightarrow> js_inc n = n + 1"
  by (simp add: js_inc_def)

lemma js_inc_top: "js_inc 9007199254740992 = 9007199254740992"
  by (simp add: js_inc_def)

lemma js_inc_iter:
  "- 9007199254740992 \<le> n \<Longrightarrow> n \<le> 9007199254740992 \<Longrightarrow>
   (js_inc ^^ k) n = min (n + int k) 9007199254740992"
proof (induction k)
  case 0
  then show ?case by simp
next
  case (Suc k)
  show ?case
  proof (cases "n + int k < 9007199254740992")
    case True
    with Suc show ?thesis by (simp add: js_inc_exact)
  next
    case False
    with Suc show ?thesis by (simp add: js_inc_top)
  qed
qed

section \<open>The shape of a digest\<close>

lemma hex_digit_is_hex: "0 \<le> n \<Longrightarrow> n < 16 \<Longrightarrow> is_hex_char (hex_digit n)"
proof -
  assume "0 \<le> n" "n < 16"
  then have "nat n < length ''0123456789abcdef''" by simp
  then have "''0123456789abcdef'' ! nat n \<in> set ''0123456789abcdef''" by (rule nth_mem)
  then show ?thesis by (simp only: is_hex_char_def hex_digit_def)
qed

lemma hex_word_length: "length (hex_word w) = 8"
  by (simp add: hex_word_def)

lemma hex_word_is_hex: "list_all is_hex_char (hex_word w)"
  by (simp add: hex_word_def hex_digit_is_hex)

lemma SHA256_toString_length: "length (SHA256_toString message) = 64"
  by (simp add: SHA256_toString_def hex_word_length split: prod.split)

lemma SHA256_toString_is_hex: "list_all is_hex_char (SHA256_toString message)"
  by (simp add: SHA256_toString_def hex_word_is_hex split: prod.split)

text \<open>The test vector of FIPS 180-4 for the one-block message \<^verbatim>\<open>abc\<close>.\<close>

lemma SHA256_abc:
  "SHA256_toString ''abc'' = ''ba7816bf8f01cfea414140de5dae2223b00361a396177a9cb410ff61f20015ad''"
  by code_simp

section \<open>Reading the serializations back\<close>

lemma hex_value_hex_digit: "0 \<le> n \<Longrightarrow> n < 16 \<Longrightarrow> hex_value (hex_digit n) = n"
proof -
  assume "0 \<le> n" "n < 16"
  then have "n \<in> {0, 1, 2, 3, 4, 5, 6, 7, 8, 9, 10, 11, 12, 13, 14, 15}" by simp arith
  then show ?thesis by (auto simp: hex_digit_def hex_value_def)
qed

lemma json_unescape_quote_char:
  "json_unescape (json_quote_char c @ t) = map_option ((#) c) (json_unescape t)"
proof -
  let ?short = "{CHR 0x08, CHR 0x09, CHR 0x0A, CHR 0x0C, CHR 0x0D, CHR 0x22, CHR 0x5C}"
  consider (short) "c \<in> ?short"
    | (control) "c \<notin> ?short" "(of_char c :: int) < 32"
    | (plain) "c \<notin> ?short" "\<not> (of_char c :: int) < 32"
    by blast
  then show ?thesis
  proof cases
    case short
    then show ?thesis by (auto simp: json_quote_char_def)
  next
    case control
    let ?v = "of_char c :: int"
    have nonneg: "0 \<le> ?v" by (metis of_nat_0_le_iff of_nat_of_char)
    have range: "0 \<le> ?v div 16" "?v div 16 < 16" "0 \<le> ?v mod 16" "?v mod 16 < 16"
      using control(2) nonneg by simp_all
    have quoted: "json_quote_char c =
        [CHR 0x5C, CHR ''u'', CHR ''0'', CHR ''0'', hex_digit (?v div 16), hex_digit (?v mod 16)]"
      using control by (simp add: json_quote_char_def)
    have zero: "hex_value (CHR ''0'') = 0"
      by (simp add: hex_value_def)
    have "((hex_value (CHR ''0'') * 16 + hex_value (CHR ''0'')) * 16
            + hex_value (hex_digit (?v div 16))) * 16 + hex_value (hex_digit (?v mod 16)) = ?v"
      using range by (simp add: zero hex_value_hex_digit)
    moreover have "?v < 256" using control(2) by simp
    moreover have "char_of ?v = c" by simp
    ultimately show ?thesis
      by (simp add: quoted Let_def)
  next
    case plain
    then show ?thesis by (simp add: json_quote_char_def)
  qed
qed

lemma json_unescape_concat: "json_unescape (concat (map json_quote_char s)) = Some s"
  by (induction s) (simp_all add: json_unescape_quote_char del: json_unescape.simps(2))

lemma JSON_parse_stringify: "JSON_parse_string (JSON_stringify s) = Some s"
proof -
  let ?inner = "concat (map json_quote_char s)"
  have "JSON_stringify s = CHR 0x22 # ?inner @ [CHR 0x22]"
    by (simp add: JSON_stringify_def)
  moreover have "butlast (tl (CHR 0x22 # ?inner @ [CHR 0x22])) = ?inner"
    by (simp add: butlast_append)
  ultimately show ?thesis
    by (simp add: JSON_parse_string_def json_unescape_concat del: json_unescape.simps(2))
qed

lemma of_char_digit_char: "0 \<le> d \<Longrightarrow> d < 10 \<Longrightarrow> (of_char (digit_char d) :: int) = 48 + d"
proof -
  assume "0 \<le> d" "d < 10"
  then have "d \<in> {0, 1, 2, 3, 4, 5, 6, 7, 8, 9}" by simp arith
  then show ?thesis by (auto simp: digit_char_def)
qed

lemma decimal_value_snoc:
  "decimal_value (ds @ [c]) = 10 * decimal_value ds + (of_char c - 48)"
  by (simp add: decimal_value_def)

lemma decimal_value_digits10: "0 \<le> n \<Longrightarrow> decimal_value (digits10 n) = n"
proof (induction n rule: digits10.induct)
  case (1 n)
  show ?case
  proof (cases "n < 10")
    case True
    with 1(2) show ?thesis
      by (subst digits10.simps) (simp add: decimal_value_def of_char_digit_char)
  next
    case False
    with 1 have "decimal_value (digits10 (n div 10)) = n div 10" by simp
    with False show ?thesis
      by (subst digits10.simps) (simp add: decimal_value_snoc of_char_digit_char)
  qed
qed

lemma length_digits10: "0 < k \<Longrightarrow> n < 10 ^ k \<Longrightarrow> length (digits10 n) \<le> k"
proof (induction k arbitrary: n)
  case 0
  then show ?case by simp
next
  case (Suc k)
  show ?case
  proof (cases "n < 10")
    case True
    then show ?thesis by (subst digits10.simps) simp
  next
    case False
    with Suc.prems have "0 < k"
      by (cases k) simp_all
    moreover from Suc.prems have "n div 10 < 10 ^ k"
      by simp
    ultimately have "length (digits10 (n div 10)) \<le> k" by (rule Suc.IH)
    with False show ?thesis by (subst digits10.simps) simp
  qed
qed

section \<open>Numbers below \<open>2\<^sup>5\<^sup>3\<close> print as their digits\<close>

lemma bit_length_bounds:
  "0 < v \<Longrightarrow> 2 ^ (bit_length v - 1) \<le> v \<and> v < 2 ^ bit_length v"
proof (induction v rule: bit_length.induct)
  case (1 n)
  show ?case
  proof (cases "0 < n div 2")
    case True
    with 1 have IH: "2 ^ (bit_length (n div 2) - 1) \<le> n div 2" "n div 2 < 2 ^ bit_length (n div 2)"
      by simp_all
    from True have pos: "0 < bit_length (n div 2)"
      by (subst bit_length.simps) simp
    then have "(2::int) ^ bit_length (n div 2) = 2 * 2 ^ (bit_length (n div 2) - 1)"
      by (cases "bit_length (n div 2)") simp_all
    with IH(1) have "2 ^ bit_length (n div 2) \<le> n" by linarith
    moreover from IH(2) have "n < 2 * 2 ^ bit_length (n div 2)" by linarith
    ultimately show ?thesis
      using 1(2) by (subst (1 2) bit_length.simps) simp
  next
    case False
    with 1(2) have "n = 1" by linarith
    then show ?thesis
      by (subst (1 2) bit_length.simps) (simp add: bit_length.simps [of 0])
  qed
qed

lemma bit_length_le: "v < 2 ^ k \<Longrightarrow> bit_length v \<le> k"
proof (cases "0 < v")
  case True
  assume "v < 2 ^ k"
  with bit_length_bounds [OF True] have "(2::int) ^ (bit_length v - 1) < 2 ^ k" by linarith
  then have "bit_length v - 1 < k" by simp
  then show ?thesis by linarith
next
  case False
  then show ?thesis by (subst bit_length.simps) simp
qed

lemma to_double_ge:
  assumes "9007199254740992 \<le> v"
  shows "9007199254740992 \<le> to_double v"
proof -
  from assms have pos: "0 < v" by simp
  note b = bit_length_bounds [OF pos]
  define e where "e = bit_length v - 53"
  have "(2::int) ^ 53 \<le> v" using assms by simp
  with b have less: "(2::int) ^ 53 < 2 ^ bit_length v" by linarith
  have big: "53 < bit_length v"
  proof (rule ccontr)
    assume "\<not> 53 < bit_length v"
    then have "bit_length v \<le> 53" by simp
    then have "(2::int) ^ bit_length v \<le> 2 ^ 53" by (intro power_increasing) simp_all
    with less show False by linarith
  qed
  then have e: "0 < e" "bit_length v - 1 = 52 + e" by (simp_all add: e_def)
  from b e(2) have "(2::int) ^ 52 * 2 ^ e \<le> v" by (simp add: power_add)
  then have "(2::int) ^ 52 * 2 ^ e div 2 ^ e \<le> v div 2 ^ e" by (rule zdiv_mono1) simp
  then have q: "(2::int) ^ 52 \<le> v div 2 ^ e" by simp
  from e(1) have "(2::int) \<le> 2 ^ e"
    by (cases e) simp_all
  have twoe: "(0::int) < 2 ^ e" by simp
  have "(2::int) ^ 53 = 2 ^ 52 * 2" by simp
  also have "\<dots> \<le> 2 ^ 52 * 2 ^ e" using \<open>2 \<le> 2 ^ e\<close> by simp
  also have "\<dots> \<le> (v div 2 ^ e) * 2 ^ e" using q twoe by simp
  finally have low: "(2::int) ^ 53 \<le> (v div 2 ^ e) * 2 ^ e" .
  have "(v div 2 ^ e) * 2 ^ e \<le> (v div 2 ^ e + 1) * 2 ^ e" using twoe by (simp add: distrib_right)
  with low have "(2::int) ^ 53 \<le> (v div 2 ^ e + 1) * 2 ^ e" by linarith
  with low assms show ?thesis
    by (simp add: to_double_def Let_def e_def [symmetric])
qed

lemma shortest_from_safe:
  "0 \<le> x \<Longrightarrow> x < 9007199254740992 \<Longrightarrow> shortest_from x d k = x"
proof (induction x d k rule: shortest_from.induct)
  case (1 x d k)
  show ?case
  proof (cases "d \<le> k")
    case True
    then show ?thesis by (subst shortest_from.simps) simp
  next
    case False
    define p :: int where "p = 10 ^ (d - k)"
    define lo where "lo = (x div p) * p"
    define hi where "hi = lo + p"
    have p: "0 < p" by (simp add: p_def)
    have split: "(x div p) * p + x mod p = x" by simp
    have rest: "0 \<le> x mod p" "x mod p < p" using p by simp_all
    have "0 \<le> x div p" using p 1(2) by (simp add: pos_imp_zdiv_nonneg_iff)
    then have "0 \<le> (x div p) * p" using p by simp
    then have lo: "0 \<le> lo" "lo \<le> x"
      unfolding lo_def using split rest by linarith+
    have "x < hi"
      unfolding hi_def lo_def using split rest by linarith
    have lo_d: "to_double lo = lo"
      using lo 1(3) by (simp add: to_double_def)
    have hi_d: "to_double hi \<noteq> x"
    proof (cases "hi < 9007199254740992")
      case True
      with \<open>x < hi\<close> show ?thesis by (simp add: to_double_def)
    next
      case False
      then have "9007199254740992 \<le> to_double hi" by (intro to_double_ge) simp
      with 1(3) show ?thesis by simp
    qed
    have unfold: "shortest_from x d k =
        (if to_double lo = x \<and> to_double hi = x then (if x - lo \<le> hi - x then lo else hi)
         else if to_double lo = x then lo
         else if to_double hi = x then hi
         else shortest_from x d (Suc k))"
      using False by (subst shortest_from.simps) (simp add: Let_def p_def lo_def hi_def)
    show ?thesis
    proof (cases "lo = x")
      case True
      with unfold lo_d hi_d show ?thesis by simp
    next
      case neq: False
      have "shortest_from x d (Suc k) = x"
        using False neq lo_d hi_d 1(2,3)
        by (intro 1(1) [of p lo hi]) (simp_all add: p_def lo_def hi_def)
      with unfold neq lo_d hi_d show ?thesis by simp
    qed
  qed
qed

lemma Number_toString_safe:
  assumes "0 \<le> n" and "n < 9007199254740992"
  shows "Number_toString n = digits10 n"
proof -
  have d: "to_double n = n" using assms by (simp add: to_double_def)
  have "n < 2 ^ 53" using assms(2) by simp
  then have "bit_length n \<le> 53" by (rule bit_length_le)
  then have finite: "\<not> 1024 < bit_length n" by simp
  have "n < 10 ^ 21" using assms(2) by simp
  then have "length (digits10 n) \<le> 21" by (intro length_digits10) simp_all
  then have "format_digits n = digits10 n"
    by (simp add: format_digits_def Let_def)
  with d finite assms show ?thesis
    by (simp add: Number_toString_def Number_toString_pos_def Let_def shortest_from_safe)
qed

lemma hash_awkward:
  "calculateHash awkward = ''64dde805ee5a25ecb90e15cd9dd79d1cd266dfaa9a0aec286ddd23df34219789''"
  by code_simp

lemma message_awkward:
  "Number_toString (index awkward) @ previousHash awkward
     @ Number_toString (timestamp awkward) @ JSON_stringify (data awkward)
     @ Number_toString (nonce awkward)
   = ''-7'' @ ''0'' @ ''72057594037927940''
     @ [CHR 0x22] @ ''a''
     @ [CHR 0x5C, CHR ''b'', CHR 0x5C, CHR ''t'', CHR 0x5C, CHR ''n'', CHR 0x5C, CHR ''f'',
        CHR 0x5C, CHR ''r'', CHR 0x5C, CHR 0x22, CHR 0x5C, CHR 0x5C]
     @ [CHR 0x5C] @ ''u0001'' @ [CHR 0x5C] @ ''u001f'' @ [CHR 0x7F, CHR 0xC3, CHR 0xA9] @ ''z''
     @ [CHR 0x22] @ ''1.1805916207174113e+21''"
  by code_simp

section \<open>The example blocks\<close>

lemma hash_genesis_0:
  "calculateHash \<lparr>index = 0, timestamp = 1700000036733, data = ''Genesis Block'',
      previousHash = ''0'', hash = h, nonce = 0\<rparr>
   = ''4d818dd531a1ad3d4a76190a2430948e209cdfb95dc20557f85d15bc4ddaa809''"
  by code_simp

lemma hash_genesis_1:
  "calculateHash \<lparr>index = 0, timestamp = 1700000036733, data = ''Genesis Block'',
      previousHash = ''0'', hash = h, nonce = 1\<rparr>
   = ''4ee85a54bdc7d945e274b071c2547f7a7d261584c587e9eabe9552379d74c109''"
  by code_simp

lemma hash_genesis_2:
  "calculateHash \<lparr>index = 0, timestamp = 1700000036733, data = ''Genesis Block'',
      previousHash = ''0'', hash = h, nonce = 2\<rparr>
   = ''000072c7a007339a9a9f39ad523385ef96046eead6462accbef9fce984e3f558''"
  by code_simp

lemma hash_tampered_2:
  "calculateHash \<lparr>index = 0, timestamp = 1700000036733, data = ''Tampered Data!'',
      previousHash = ''0'', hash = h, nonce = 2\<rparr>
   = ''192ce95da4e9930290bcbe5deb8a675bb17b4c176dad806887a27b83d0ba9e64''"
  by code_simp

lemma hash_saturated:
  "calculateHash \<lparr>index = 0, timestamp = 1700000036733, data = ''Genesis Block'',
      previousHash = ''0'', hash = h, nonce = 9007199254740992\<rparr>
   = ''9bff6057bbb400ee1cf0ee954af1e500f1cb60bad7361d6edf5fa02bbf04979c''"
  by code_simp

lemma hash_beyond:
  "calculateHash \<lparr>index = 0, timestamp = 1700000036733, data = ''Genesis Block'',
      previousHash = ''0'', hash = h, nonce = 9007199254862996\<rparr>
   = ''000012e1d1a1ab1833c86688dbd8c1a9a51ffe8c99141c97f57d1f555d3934a7''"
  by code_simp

lemma genesis_eq:
  "genesis = \<lparr>index = 0, timestamp = 1700000036733, data = ''Genesis Block'',
      previousHash = ''0'',
      hash = ''4d818dd531a1ad3d4a76190a2430948e209cdfb95dc20557f85d15bc4ddaa809'',
      nonce = 0\<rparr>"
  by (simp add: genesis_def Block_new_def hash_genesis_0)

lemma genesis_in_sync: "hash genesis = calculateHash genesis"
  by (simp add: genesis_eq hash_genesis_0)

lemma genesis_fingerprints:
  "fingerprint_at genesis 0 = ''4d818dd531a1ad3d4a76190a2430948e209cdfb95dc20557f85d15bc4ddaa809''"
  "fingerprint_at genesis 1 = ''4ee85a54bdc7d945e274b071c2547f7a7d261584c587e9eabe9552379d74c109''"
  "fingerprint_at genesis 2 = ''000072c7a007339a9a9f39ad523385ef96046eead6462accbef9fce984e3f558''"
  by (simp_all add: fingerprint_at_def genesis_eq hash_genesis_0 hash_genesis_1 hash_genesis_2)

lemma body_genesis:
  "mineBlock_body genesis = \<lparr>index = 0, timestamp = 1700000036733, data = ''Genesis Block'',
      previousHash = ''0'',
      hash = ''4ee85a54bdc7d945e274b071c2547f7a7d261584c587e9eabe9552379d74c109'',
      nonce = 1\<rparr>"
  by (simp add: genesis_eq mineBlock_body_def js_inc_def hash_genesis_1)

lemma body_body_genesis: "mineBlock_body (mineBlock_body genesis) = genesis_mined"
  unfolding body_genesis
  by (simp add: mineBlock_body_def js_inc_def hash_genesis_2 genesis_mined_def)

lemma mine_genesis: "mineBlock genesis = Some genesis_mined"
proof -
  have "\<not> isValidHash (hash genesis)"
    by (simp add: genesis_eq isValidHash_iff)
  moreover have "\<not> isValidHash (hash (mineBlock_body genesis))"
    by (simp add: body_genesis isValidHash_iff)
  moreover have "isValidHash (hash genesis_mined)"
    by (simp add: genesis_mined_def isValidHash_iff)
  ultimately show ?thesis
    by (simp add: mineBlock_unfold [of genesis] mineBlock_unfold [of "mineBlock_body genesis"]
        mineBlock_unfold [of genesis_mined] body_body_genesis)
qed

lemma genesis_mined_in_sync: "hash genesis_mined = calculateHash genesis_mined"
  by (simp add: genesis_mined_def hash_genesis_2)

lemma tampered_eq:
  "tampered = \<lparr>index = 0, timestamp = 1700000036733, data = ''Tampered Data!'',
      previousHash = ''0'',
      hash = ''000072c7a007339a9a9f39ad523385ef96046eead6462accbef9fce984e3f558'',
      nonce = 2\<rparr>"
  by (simp add: tampered_def genesis_mined_def)

lemma tampered_valid: "isValidHash (hash tampered)"
  by (simp add: tampered_eq isValidHash_iff)

lemma tampered_recomputed:
  "calculateHash tampered = ''192ce95da4e9930290bcbe5deb8a675bb17b4c176dad806887a27b83d0ba9e64''"
  by (simp add: tampered_eq hash_tampered_2)

lemma tampered_out_of_sync: "hash tampered \<noteq> calculateHash tampered"
  by (simp add: tampered_recomputed) (simp add: tampered_eq)

lemma saturated_in_sync: "hash saturated = calculateHash saturated"
  by (simp add: saturated_def hash_saturated)

lemma saturated_fixed: "mineBlock_body saturated = saturated"
  by (simp add: mineBlock_body_def saturated_def js_inc_def hash_saturated)

lemma saturated_iter: "(mineBlock_body ^^ k) saturated = saturated"
  by (induction k) (simp_all add: saturated_fixed)

lemma saturated_never_returns: "mineBlock saturated = None"
proof (cases "mineBlock saturated")
  case (Some y)
  from mineBlock_Some_iter [OF this] have "isValidHash (hash saturated)"
    by (auto simp: saturated_iter)
  then show ?thesis by (simp add: saturated_def isValidHash_iff)
qed simp

lemma saturated_beyond: "isValidHash (fingerprint_at saturated 9007199254862996)"
  by (simp add: fingerprint_at_def saturated_def hash_beyond isValidHash_iff)

section \<open>Which nonces the loop tries\<close>

lemma nonce_self_update: "b\<lparr>nonce := nonce b\<rparr> = b"
  by simp

lemma iter_hash_in_sync:
  assumes "hash b = calculateHash b"
  shows "hash ((mineBlock_body ^^ k) b) = fingerprint_at b ((js_inc ^^ k) (nonce b))"
proof (cases k)
  case 0
  with assms show ?thesis by (simp add: fingerprint_at_nonce)
next
  case (Suc i)
  then show ?thesis using iter_hash_fingerprint [of k b] by simp
qed

lemma mining_returns_iff:
  assumes sync: "hash b = calculateHash b"
    and lo: "- 9007199254740992 \<le> nonce b" and hi: "nonce b \<le> 9007199254740992"
  shows "(\<exists>b'. mineBlock b = Some b') \<longleftrightarrow>
         (\<exists>n. nonce b \<le> n \<and> n \<le> 9007199254740992 \<and> isValidHash (fingerprint_at b n))"
proof
  assume "\<exists>b'. mineBlock b = Some b'"
  then obtain k where "isValidHash (hash ((mineBlock_body ^^ k) b))"
    using mineBlock_returns_iff by blast
  then have "isValidHash (fingerprint_at b (min (nonce b + int k) 9007199254740992))"
    by (simp add: iter_hash_in_sync [OF sync] js_inc_iter [OF lo hi])
  moreover have "nonce b \<le> min (nonce b + int k) 9007199254740992"
    using hi by simp
  ultimately show "\<exists>n. nonce b \<le> n \<and> n \<le> 9007199254740992 \<and> isValidHash (fingerprint_at b n)"
    by (intro exI [of _ "min (nonce b + int k) 9007199254740992"]) simp
next
  assume "\<exists>n. nonce b \<le> n \<and> n \<le> 9007199254740992 \<and> isValidHash (fingerprint_at b n)"
  then obtain n where n: "nonce b \<le> n" "n \<le> 9007199254740992" "isValidHash (fingerprint_at b n)"
    by blast
  define k where "k = nat (n - nonce b)"
  have "min (nonce b + int k) 9007199254740992 = n"
    using n(1,2) by (simp add: k_def)
  then have "hash ((mineBlock_body ^^ k) b) = fingerprint_at b n"
    by (simp add: iter_hash_in_sync [OF sync] js_inc_iter [OF lo hi])
  with n(3) have "\<exists>k. isValidHash (hash ((mineBlock_body ^^ k) b))"
    by (intro exI [of _ k]) simp
  then show "\<exists>b'. mineBlock b = Some b'"
    using mineBlock_returns_iff by blast
qed

lemma mined_nonce_least:
  assumes sync: "hash b = calculateHash b"
    and lo: "- 9007199254740992 \<le> nonce b" and hi: "nonce b \<le> 9007199254740992"
    and mined: "mineBlock b = Some b'"
  shows "nonce b \<le> nonce b'"
    and "hash b' = fingerprint_at b (nonce b')"
    and "isValidHash (fingerprint_at b (nonce b'))"
    and "\<forall>n. nonce b \<le> n \<and> n < nonce b' \<longrightarrow> \<not> isValidHash (fingerprint_at b n)"
proof -
  from mineBlock_Some_iter [OF mined] obtain k where k:
    "b' = (mineBlock_body ^^ k) b" "isValidHash (hash b')"
    "\<forall>j<k. \<not> isValidHash (hash ((mineBlock_body ^^ j) b))"
    by blast
  have nonce': "nonce b' = min (nonce b + int k) 9007199254740992"
    by (simp add: k(1) iter_nonce js_inc_iter [OF lo hi])
  then show "nonce b \<le> nonce b'"
    using hi by simp
  show hash': "hash b' = fingerprint_at b (nonce b')"
    by (simp add: k(1) iter_hash_in_sync [OF sync] iter_nonce)
  with k(2) show "isValidHash (fingerprint_at b (nonce b'))"
    by simp
  show "\<forall>n. nonce b \<le> n \<and> n < nonce b' \<longrightarrow> \<not> isValidHash (fingerprint_at b n)"
  proof (intro allI impI)
    fix n assume n: "nonce b \<le> n \<and> n < nonce b'"
    define j where "j = nat (n - nonce b)"
    from n nonce' have "nonce b \<le> n" and "n < nonce b + int k" and "n < 9007199254740992"
      by simp_all
    then have "j < k" and "min (nonce b + int j) 9007199254740992 = n"
      by (simp_all add: j_def)
    then have "hash ((mineBlock_body ^^ j) b) = fingerprint_at b n"
      by (simp add: iter_hash_in_sync [OF sync] js_inc_iter [OF lo hi])
    with k(3) \<open>j < k\<close> show "\<not> isValidHash (fingerprint_at b n)"
      by auto
  qed
qed

section \<open>The loop of the program and the loop of the specification\<close>

lemma spec_step_fields:
  "nonce (spec_step b) = nonce b + 1"
  "hash (spec_step b) = calculateHash (spec_step b)"
  by (simp_all add: spec_step_def Let_def calculateHash_hash_update)

lemma spec_iter_nonce: "nonce ((spec_step ^^ k) b) = nonce b + int k"
  by (induction k) (simp_all add: spec_step_fields)

lemma spec_iter_hash:
  "0 < k \<Longrightarrow> hash ((spec_step ^^ k) b) = calculateHash ((spec_step ^^ k) b)"
  by (cases k) (simp_all add: spec_step_fields)

text \<open>Below \<open>2\<^sup>5\<^sup>3\<close> the two loop bodies do the same.\<close>

lemma body_eq_spec_step:
  "- 9007199254740992 \<le> nonce b \<Longrightarrow> nonce b < 9007199254740992 \<Longrightarrow>
   mineBlock_body b = spec_step b"
  by (simp add: mineBlock_body_def spec_step_def js_inc_exact)

lemma iter_eq_spec_iter:
  "- 9007199254740992 \<le> nonce b \<Longrightarrow> nonce b + int k \<le> 9007199254740992 \<Longrightarrow>
   (mineBlock_body ^^ k) b = (spec_step ^^ k) b"
proof (induction k)
  case 0
  show ?case by simp
next
  case (Suc k)
  then have eq: "(mineBlock_body ^^ k) b = (spec_step ^^ k) b" by simp
  have "mineBlock_body ((spec_step ^^ k) b) = spec_step ((spec_step ^^ k) b)"
    using Suc.prems by (intro body_eq_spec_step) (simp_all add: spec_iter_nonce)
  with eq show ?case by simp
qed

lemma mineBlock_and_spec_search:
  assumes lo: "- 9007199254740992 \<le> nonce b" and hi: "nonce b < 9007199254740992"
  shows "mineBlock b = Some b' \<longleftrightarrow>
         spec_search b = Some b' \<and> nonce b' \<le> 9007199254740992"
proof
  assume "mineBlock b = Some b'"
  from mineBlock_Some_iter [OF this] obtain k where k:
    "b' = (mineBlock_body ^^ k) b" "isValidHash (hash b')"
    "\<forall>j<k. \<not> isValidHash (hash ((mineBlock_body ^^ j) b))"
    by blast
  from hi have hi': "nonce b \<le> 9007199254740992" by simp
  have bound: "nonce b + int k \<le> 9007199254740992"
  proof (rule ccontr)
    assume "\<not> nonce b + int k \<le> 9007199254740992"
    then have over: "9007199254740992 < nonce b + int k" by simp
    define m where "m = nat (9007199254740992 - nonce b)"
    from hi over have m: "0 < m" "m < k" "nonce b + int m = 9007199254740992"
      by (simp_all add: m_def)
    from m(1) have "hash ((mineBlock_body ^^ m) b) = fingerprint_at b 9007199254740992"
      by (simp add: iter_hash_fingerprint js_inc_iter [OF lo hi'] m(3))
    with k(3) m(2) have "\<not> isValidHash (fingerprint_at b 9007199254740992)"
      by auto
    moreover from m have "0 < k" by simp
    then have "hash ((mineBlock_body ^^ k) b) = fingerprint_at b 9007199254740992"
      using over by (simp add: iter_hash_fingerprint js_inc_iter [OF lo hi'])
    ultimately show False using k(1,2) by simp
  qed
  have same: "\<And>j. j \<le> k \<Longrightarrow> (mineBlock_body ^^ j) b = (spec_step ^^ j) b"
    using bound by (intro iter_eq_spec_iter [OF lo]) simp
  from k(1,2) same [of k] have "isValidHash (hash ((spec_step ^^ k) b))" by simp
  moreover from k(3) same have "\<forall>j<k. \<not> isValidHash (hash ((spec_step ^^ j) b))" by simp
  ultimately have "spec_search b = Some ((spec_step ^^ k) b)"
    by (rule spec_search_first_valid)
  moreover have "nonce b' = nonce b + int k"
    using k(1) same [of k] by (simp add: spec_iter_nonce)
  ultimately show "spec_search b = Some b' \<and> nonce b' \<le> 9007199254740992"
    using k(1) same [of k] bound by simp
next
  assume r: "spec_search b = Some b' \<and> nonce b' \<le> 9007199254740992"
  then have "spec_search b = Some b'" ..
  from spec_search_Some_iter [OF this] obtain k where k:
    "b' = (spec_step ^^ k) b" "isValidHash (hash b')"
    "\<forall>j<k. \<not> isValidHash (hash ((spec_step ^^ j) b))"
    by blast
  from r k(1) have bound: "nonce b + int k \<le> 9007199254740992"
    by (simp add: spec_iter_nonce)
  have same: "\<And>j. j \<le> k \<Longrightarrow> (mineBlock_body ^^ j) b = (spec_step ^^ j) b"
    using bound by (intro iter_eq_spec_iter [OF lo]) simp
  from k(1,2) same [of k] have "isValidHash (hash ((mineBlock_body ^^ k) b))" by simp
  moreover from k(3) same have "\<forall>j<k. \<not> isValidHash (hash ((mineBlock_body ^^ j) b))" by simp
  ultimately have "mineBlock b = Some ((mineBlock_body ^^ k) b)"
    by (rule mineBlock_first_valid)
  with k(1) same [of k] show "mineBlock b = Some b'" by simp
qed

lemma spec_mining_fresh:
  "nonce b = 0 \<Longrightarrow> hash b = calculateHash b \<Longrightarrow> spec_mining b = spec_search b"
proof -
  assume fresh: "nonce b = 0" "hash b = calculateHash b"
  from fresh(1) have "b\<lparr>nonce := 0\<rparr> = b"
    using nonce_self_update [of b] by simp
  with fresh(2) have "(b\<lparr>nonce := 0\<rparr>)\<lparr>hash := calculateHash (b\<lparr>nonce := 0\<rparr>)\<rparr> = b"
    by simp
  then show ?thesis
    by (simp add: spec_mining_def Let_def)
qed

lemma mineBlock_and_spec_mining:
  assumes "nonce b = 0" and "hash b = calculateHash b"
  shows "mineBlock b = Some b' \<longleftrightarrow>
         spec_mining b = Some b' \<and> nonce b' \<le> 9007199254740992"
  using mineBlock_and_spec_search [of b b'] spec_mining_fresh [OF assms] assms(1) by simp

lemma spec_search_in_sync:
  assumes "spec_search b = Some r" and "hash b = calculateHash b"
  shows "hash r = calculateHash r"
proof -
  from spec_search_Some_iter [OF assms(1)] obtain k where k: "r = (spec_step ^^ k) b"
    by blast
  show ?thesis
  proof (cases k)
    case 0
    with k assms(2) show ?thesis by simp
  next
    case (Suc i)
    with k show ?thesis using spec_iter_hash [of k b] by simp
  qed
qed

lemma spec_mining_in_sync: "spec_mining b = Some r \<Longrightarrow> hash r = calculateHash r"
proof -
  assume "spec_mining b = Some r"
  then have "spec_search ((b\<lparr>nonce := 0\<rparr>)\<lparr>hash := calculateHash (b\<lparr>nonce := 0\<rparr>)\<rparr>) = Some r"
    by (simp add: spec_mining_def Let_def)
  then show ?thesis
    by (rule spec_search_in_sync) (simp add: calculateHash_hash_update)
qed

text \<open>
  At \<open>2\<^sup>5\<^sup>3\<close> the two searches part: the program's nonce stays, the counter of the
  specification goes on and arrives at a nonce whose hash has four leading zeros.
\<close>

lemma spec_search_beyond_saturation: "spec_search saturated \<noteq> None"
proof -
  have "nonce ((spec_step ^^ 122004) saturated) = 9007199254862996"
    by (simp add: spec_iter_nonce saturated_def)
  moreover have "(spec_step ^^ 122004) saturated
      = saturated\<lparr>nonce := nonce ((spec_step ^^ 122004) saturated),
           hash := hash ((spec_step ^^ 122004) saturated)\<rparr>"
    by (rule spec_iter_frame)
  ultimately have "calculateHash ((spec_step ^^ 122004) saturated)
      = fingerprint_at saturated 9007199254862996"
    by (metis calculateHash_hash_update fingerprint_at_def)
  then have "isValidHash (hash ((spec_step ^^ 122004) saturated))"
    using saturated_beyond by (simp add: spec_iter_hash)
  from spec_first_valid_exists [OF this] obtain m where
    "isValidHash (hash ((spec_step ^^ m) saturated))"
    "\<forall>j<m. \<not> isValidHash (hash ((spec_step ^^ j) saturated))"
    by blast
  from spec_search_first_valid [OF this] show ?thesis by simp
qed

lemma Block_new_in_sync: "hash (Block_new i d p t) = calculateHash (Block_new i d p t)"
  by (simp add: Block_new_def Let_def calculateHash_def)

lemma Block_new_nonce: "nonce (Block_new i d p t) = 0"
  by (simp add: Block_new_def Let_def)

lemma mineBlock_at_genesis: "mineBlock_at two_blocks 0 = Some (two_blocks(0 \<mapsto> genesis_mined))"
  by (simp add: mineBlock_at_def two_blocks_def mine_genesis)

section \<open>The claims\<close>

text \<open>
  C1. For every block, after \<^verbatim>\<open>mineBlock\<close> returns, the hash stored in the block satisfies
  the difficulty predicate: its first \<^verbatim>\<open>DIFFICULTY\<close> (= 4) characters are all 0.
\<close>

theorem C1_mined_hash_meets_difficulty:
  "mineBlock b = Some b' \<Longrightarrow>
   isValidHash (hash b') \<and> DIFFICULTY = 4 \<and>
   take DIFFICULTY (hash b') = replicate DIFFICULTY (CHR ''0'')"
proof -
  assume "mineBlock b = Some b'"
  then have "isValidHash (hash b')" by (rule mineBlock_result_valid)
  then show ?thesis
    by (simp add: isValidHash_iff DIFFICULTY_def numeral_eq_Suc)
qed

theorem C1_mined_hash_meets_difficulty_witness:
  "mineBlock genesis = Some genesis_mined \<and>
   isValidHash (hash genesis_mined) \<and> DIFFICULTY = 4 \<and>
   take DIFFICULTY (hash genesis_mined) = replicate DIFFICULTY (CHR ''0'')"
  using C1_mined_hash_meets_difficulty [OF mine_genesis] mine_genesis by simp

text \<open>
  C2, as amended. Immediately after construction the field \<^verbatim>\<open>hash\<close> equals \<^verbatim>\<open>calculateHash\<close>
  of the block's current fields. Immediately after \<^verbatim>\<open>mineBlock\<close> returns it does so whenever
  it did before the call, and also whenever the stored hash failed the difficulty
  predicate at the call, so that the loop body ran. \<^verbatim>\<open>mineBlock\<close> does not recompute a stored
  hash that passes the predicate.
\<close>

theorem C2_hash_in_sync:
  "hash (Block_new i d p t) = calculateHash (Block_new i d p t) \<and>
   (hash b = calculateHash b \<and> mineBlock b = Some b' \<longrightarrow> hash b' = calculateHash b') \<and>
   (\<not> isValidHash (hash b) \<and> mineBlock b = Some b' \<longrightarrow> hash b' = calculateHash b')"
  using Block_new_in_sync mineBlock_consistent by blast

theorem C2_hash_in_sync_witness:
  "hash genesis = calculateHash genesis \<and> \<not> isValidHash (hash genesis) \<and>
   mineBlock genesis = Some genesis_mined \<and>
   hash genesis_mined = calculateHash genesis_mined \<and>
   hash (genesis_mined\<lparr>data := ''Tampered Data!''\<rparr>)
     \<noteq> calculateHash (genesis_mined\<lparr>data := ''Tampered Data!''\<rparr>)"
proof -
  have "\<not> isValidHash (hash genesis)"
    by (simp add: genesis_eq isValidHash_iff)
  moreover have "hash genesis = calculateHash genesis"
    using C2_hash_in_sync [of 0 "''Genesis Block''" "Some ''0''" 1700000036733]
    by (simp add: genesis_def)
  moreover from this have "hash genesis_mined = calculateHash genesis_mined"
    using C2_hash_in_sync [of _ _ _ _ genesis genesis_mined] mine_genesis by blast
  ultimately show ?thesis
    using mine_genesis tampered_out_of_sync by (simp add: tampered_def)
qed

text \<open>
  C2 as stated fails on the mined block whose data was then changed: \<^verbatim>\<open>mineBlock\<close> returns
  it as it is, with a hash that is not \<^verbatim>\<open>calculateHash\<close> of its fields.
\<close>

theorem C2_stale_hash_counterexample:
  "mineBlock tampered = Some tampered \<and> hash tampered \<noteq> calculateHash tampered"
proof
  show "mineBlock tampered = Some tampered"
    using tampered_valid by (rule mineBlock_valid_noop)
  show "hash tampered \<noteq> calculateHash tampered"
    by (rule tampered_out_of_sync)
qed

text \<open>
  C3. \<^verbatim>\<open>calculateHash\<close> returns the SHA-256 hash, as a string of 64 hexadecimal characters, of
  the concatenation of index, previousHash, timestamp, the JSON serialization of data, and
  nonce, in this order. The serialization of the data is canonical in that it reads back
  as the data, and a number from 0 up to \<open>2\<^sup>5\<^sup>3\<close> enters with its decimal digits, which read
  back as the number.
\<close>

theorem C3_calculateHash_digest:
  "calculateHash b =
     SHA256_toString
       (Number_toString (index b) @ previousHash b @ Number_toString (timestamp b)
          @ JSON_stringify (data b) @ Number_toString (nonce b)) \<and>
   length (calculateHash b) = 64 \<and>
   list_all is_hex_char (calculateHash b) \<and>
   JSON_parse_string (JSON_stringify (data b)) = Some (data b) \<and>
   (0 \<le> n \<and> n < 9007199254740992 \<longrightarrow>
      Number_toString n = digits10 n \<and> decimal_value (Number_toString n) = n)"
  by (simp add: calculateHash_def SHA256_toString_length SHA256_toString_is_hex
      JSON_parse_stringify Number_toString_safe decimal_value_digits10)

theorem C3_calculateHash_digest_witness:
  "calculateHash awkward =
     SHA256_toString
       (''-7'' @ ''0'' @ ''72057594037927940''
        @ [CHR 0x22] @ ''a''
        @ [CHR 0x5C, CHR ''b'', CHR 0x5C, CHR ''t'', CHR 0x5C, CHR ''n'', CHR 0x5C, CHR ''f'',
           CHR 0x5C, CHR ''r'', CHR 0x5C, CHR 0x22, CHR 0x5C, CHR 0x5C]
        @ [CHR 0x5C] @ ''u0001'' @ [CHR 0x5C] @ ''u001f'' @ [CHR 0x7F, CHR 0xC3, CHR 0xA9] @ ''z''
        @ [CHR 0x22] @ ''1.1805916207174113e+21'') \<and>
   calculateHash awkward
     = ''64dde805ee5a25ecb90e15cd9dd79d1cd266dfaa9a0aec286ddd23df34219789'' \<and>
   length (calculateHash awkward) = 64 \<and>
   list_all is_hex_char (calculateHash awkward) \<and>
   JSON_parse_string (JSON_stringify (data awkward)) = Some (data awkward) \<and>
   Number_toString 1700000036733 = ''1700000036733'' \<and>
   decimal_value (Number_toString 1700000036733) = 1700000036733"
proof -
  note digest = C3_calculateHash_digest [of awkward 1700000036733, unfolded message_awkward]
  have range: "(0::int) \<le> 1700000036733 \<and> (1700000036733::int) < 9007199254740992"
    by simp
  have digits: "digits10 1700000036733 = ''1700000036733''"
    by code_simp
  from digest range
  have "Number_toString 1700000036733 = digits10 1700000036733"
    and "decimal_value (Number_toString 1700000036733) = 1700000036733"
    by blast+
  with digits have "Number_toString 1700000036733 = ''1700000036733''"
    and "decimal_value (Number_toString 1700000036733) = 1700000036733"
    by simp_all
  with digest hash_awkward show ?thesis by blast
qed

text \<open>
  C4, as amended. \<^verbatim>\<open>mineBlock\<close> starts from the nonce and the hash that the block holds: it
  does not set the nonce to 0 and does not compute the hash first (the constructor has
  done both). While the stored hash fails the difficulty predicate it applies \<^verbatim>\<open>++\<close> to the
  nonce and recomputes the hash, and it stops at the first hash that passes; \<^verbatim>\<open>++\<close> adds 1
  below \<open>2\<^sup>5\<^sup>3\<close> and leaves the nonce as it is at \<open>2\<^sup>5\<^sup>3\<close>. Hence, on a block whose nonce is 0
  and whose hash is that of its fields, as the constructor leaves it, \<^verbatim>\<open>mineBlock\<close> returns a
  block exactly when the algorithm of the specification (set the nonce to 0, compute the
  hash, increment the nonce by 1 and recompute until the predicate holds) stops with that
  block at a nonce of at most \<open>2\<^sup>5\<^sup>3\<close>. The same holds for the two searches alone, started at
  any nonce from \<open>-2\<^sup>5\<^sup>3\<close> up to, and not including, \<open>2\<^sup>5\<^sup>3\<close>.
\<close>

theorem C4_mineBlock_and_spec_mining:
  "(- 9007199254740992 \<le> nonce b \<and> nonce b < 9007199254740992 \<longrightarrow>
      (mineBlock b = Some b' \<longleftrightarrow>
       spec_search b = Some b' \<and> nonce b' \<le> 9007199254740992)) \<and>
   (nonce b = 0 \<and> hash b = calculateHash b \<longrightarrow>
      (mineBlock b = Some b' \<longleftrightarrow>
       spec_mining b = Some b' \<and> nonce b' \<le> 9007199254740992)) \<and>
   (mineBlock (Block_new i d p t) = Some b' \<longleftrightarrow>
    spec_mining (Block_new i d p t) = Some b' \<and> nonce b' \<le> 9007199254740992)"
proof (intro conjI impI)
  assume "- 9007199254740992 \<le> nonce b \<and> nonce b < 9007199254740992"
  then show "mineBlock b = Some b' \<longleftrightarrow>
      spec_search b = Some b' \<and> nonce b' \<le> 9007199254740992"
    by (intro mineBlock_and_spec_search) simp_all
next
  assume "nonce b = 0 \<and> hash b = calculateHash b"
  then show "mineBlock b = Some b' \<longleftrightarrow>
      spec_mining b = Some b' \<and> nonce b' \<le> 9007199254740992"
    by (intro mineBlock_and_spec_mining) simp_all
next
  show "mineBlock (Block_new i d p t) = Some b' \<longleftrightarrow>
      spec_mining (Block_new i d p t) = Some b' \<and> nonce b' \<le> 9007199254740992"
    by (intro mineBlock_and_spec_mining Block_new_nonce Block_new_in_sync)
qed

theorem C4_mineBlock_and_spec_mining_witness:
  "nonce genesis = 0 \<and> hash genesis = calculateHash genesis \<and>
   mineBlock genesis = Some genesis_mined \<and>
   spec_mining genesis = Some genesis_mined \<and> spec_search genesis = Some genesis_mined \<and>
   nonce genesis_mined \<le> 9007199254740992"
proof -
  have n: "nonce genesis = 0" by (simp add: genesis_eq)
  have "spec_mining genesis = Some genesis_mined \<and> nonce genesis_mined \<le> 9007199254740992"
    using C4_mineBlock_and_spec_mining [of genesis genesis_mined] n genesis_in_sync mine_genesis
    by blast
  moreover have "spec_search genesis = Some genesis_mined"
    using C4_mineBlock_and_spec_mining [of genesis genesis_mined] n mine_genesis
    by simp
  ultimately show ?thesis
    using n genesis_in_sync mine_genesis by simp
qed

text \<open>
  C4 as stated fails on the mined block whose data was then changed: \<^verbatim>\<open>mineBlock\<close> returns
  at once and leaves nonce 2 and the old hash, where the algorithm that first sets the nonce
  to 0 and computes the hash ends, if it ends, with the hash of the fields it leaves.
\<close>

theorem C4_mining_restarts_counterexample:
  "mineBlock tampered = Some tampered \<and> nonce tampered = 2 \<and>
   mineBlock tampered \<noteq> spec_mining tampered"
proof -
  have same: "mineBlock tampered = Some tampered"
    using tampered_valid by (rule mineBlock_valid_noop)
  have "spec_mining tampered \<noteq> Some tampered"
    using spec_mining_in_sync [of tampered tampered] tampered_out_of_sync by blast
  with same show ?thesis by (simp add: tampered_eq)
qed

text \<open>
  C5, as amended. The constructor makes a block from index, data and previousHash, with
  the clock reading as timestamp and nonce 0; when previousHash is left out its default
  is the empty string.
\<close>

theorem C5_constructor_fields:
  "index (Block_new i d p t) = i \<and> data (Block_new i d p t) = d \<and>
   timestamp (Block_new i d p t) = t \<and> nonce (Block_new i d p t) = 0 \<and>
   previousHash (Block_new i d (Some q) t) = q \<and>
   previousHash (Block_new i d None t) = []"
  by (simp add: Block_new_def Let_def)

text \<open>C5 as stated fails: the default is not the string \<^verbatim>\<open>"0"\<close>.\<close>

theorem C5_default_previousHash_counterexample:
  "previousHash (Block_new 0 ''Genesis Block'' None 1700000036733) \<noteq> ''0''"
  by (simp add: Block_new_def Let_def)

text \<open>
  C6. \<^verbatim>\<open>mineBlock\<close> changes only the fields nonce and hash of its block; index, timestamp,
  data and previousHash are as before, and no other block of the store is touched.
\<close>

theorem C6_mineBlock_frame:
  "(mineBlock b = Some b' \<longrightarrow>
      b' = b\<lparr>nonce := nonce b', hash := hash b'\<rparr> \<and>
      index b' = index b \<and> timestamp b' = timestamp b \<and>
      data b' = data b \<and> previousHash b' = previousHash b) \<and>
   (mineBlock_at st r = Some st' \<longrightarrow> (\<forall>r'. r' \<noteq> r \<longrightarrow> st' r' = st r'))"
proof (intro conjI impI)
  assume "mineBlock b = Some b'"
  from mineBlock_frame [OF this] have eq: "b' = b\<lparr>nonce := nonce b', hash := hash b'\<rparr>" .
  then show "b' = b\<lparr>nonce := nonce b', hash := hash b'\<rparr>" .
  from eq have "index b' = index (b\<lparr>nonce := nonce b', hash := hash b'\<rparr>)" by simp
  then show "index b' = index b" by simp
  from eq have "timestamp b' = timestamp (b\<lparr>nonce := nonce b', hash := hash b'\<rparr>)" by simp
  then show "timestamp b' = timestamp b" by simp
  from eq have "data b' = data (b\<lparr>nonce := nonce b', hash := hash b'\<rparr>)" by simp
  then show "data b' = data b" by simp
  from eq have "previousHash b' = previousHash (b\<lparr>nonce := nonce b', hash := hash b'\<rparr>)" by simp
  then show "previousHash b' = previousHash b" by simp
next
  assume "mineBlock_at st r = Some st'"
  then show "\<forall>r'. r' \<noteq> r \<longrightarrow> st' r' = st r'"
    by (auto simp: mineBlock_at_def split: option.splits)
qed

theorem C6_mineBlock_frame_witness:
  "mineBlock genesis = Some genesis_mined \<and>
   genesis_mined = genesis\<lparr>nonce := 2, hash := hash genesis_mined\<rparr> \<and>
   index genesis_mined = index genesis \<and> timestamp genesis_mined = timestamp genesis \<and>
   data genesis_mined = data genesis \<and> previousHash genesis_mined = previousHash genesis \<and>
   mineBlock_at two_blocks 0 = Some (two_blocks(0 \<mapsto> genesis_mined)) \<and>
   (two_blocks(0 \<mapsto> genesis_mined)) 1 = two_blocks 1 \<and> two_blocks 1 = Some tampered"
proof -
  have "nonce genesis_mined = 2" by (simp add: genesis_mined_def)
  moreover have "(two_blocks(0 \<mapsto> genesis_mined)) 1 = two_blocks 1"
    using C6_mineBlock_frame [of genesis genesis_mined two_blocks 0 "two_blocks(0 \<mapsto> genesis_mined)"]
      mineBlock_at_genesis by simp
  moreover have "two_blocks 1 = Some tampered" by (simp add: two_blocks_def)
  ultimately show ?thesis
    using C6_mineBlock_frame [of genesis genesis_mined two_blocks 0 "two_blocks(0 \<mapsto> genesis_mined)"]
      mine_genesis mineBlock_at_genesis by simp
qed

text \<open>
  C7. \<^verbatim>\<open>isValidHash\<close> is a function of its argument alone (it reads the string and the
  constant, and writes nothing, so two calls on the same string agree); it returns true
  exactly when the string starts with \<^verbatim>\<open>DIFFICULTY\<close> (= 4) copies of the character 0.
\<close>

theorem C7_isValidHash_leading_zeros:
  "DIFFICULTY = 4 \<and>
   (isValidHash h \<longleftrightarrow> (\<exists>rest. h = replicate DIFFICULTY (CHR ''0'') @ rest))"
proof -
  have "take 4 h = ''0000'' \<longleftrightarrow> (\<exists>rest. h = ''0000'' @ rest)"
  proof
    assume "take 4 h = ''0000''"
    then have "h = ''0000'' @ drop 4 h" by (metis append_take_drop_id)
    then show "\<exists>rest. h = ''0000'' @ rest" ..
  next
    assume "\<exists>rest. h = ''0000'' @ rest"
    then show "take 4 h = ''0000''" by auto
  qed
  then show ?thesis
    by (simp add: isValidHash_iff DIFFICULTY_def numeral_eq_Suc)
qed

text \<open>
  C8, as amended. For every block whose hash is that of its fields and whose nonce is at
  most \<open>2\<^sup>5\<^sup>3\<close> in magnitude, \<^verbatim>\<open>mineBlock\<close> returns if and only if some nonce from the block's
  nonce up to \<open>2\<^sup>5\<^sup>3\<close> yields a hash that satisfies the difficulty predicate. No bound on the
  number of iterations is enforced: when there is no such nonce the call never returns.
  Nonces above \<open>2\<^sup>5\<^sup>3\<close> are never tried, since there \<^verbatim>\<open>++\<close> leaves the nonce as it is.
\<close>

theorem C8_mining_returns_iff:
  assumes "hash b = calculateHash b"
    and "- 9007199254740992 \<le> nonce b" and "nonce b \<le> 9007199254740992"
  shows "((\<exists>b'. mineBlock b = Some b') \<longleftrightarrow>
          (\<exists>n. nonce b \<le> n \<and> n \<le> 9007199254740992 \<and> isValidHash (fingerprint_at b n))) \<and>
         (mineBlock b = None \<longleftrightarrow>
          (\<forall>n. nonce b \<le> n \<and> n \<le> 9007199254740992 \<longrightarrow> \<not> isValidHash (fingerprint_at b n)))"
proof -
  have "mineBlock b = None \<longleftrightarrow> \<not> (\<exists>b'. mineBlock b = Some b')" by auto
  then show ?thesis
    using mining_returns_iff [OF assms] by auto
qed

theorem C8_mining_returns_iff_witness:
  "hash genesis = calculateHash genesis \<and> - 9007199254740992 \<le> nonce genesis \<and>
   nonce genesis \<le> 9007199254740992 \<and> nonce genesis \<le> 2 \<and>
   isValidHash (fingerprint_at genesis 2) \<and> (\<exists>b'. mineBlock genesis = Some b')"
proof -
  have n: "nonce genesis = 0" by (simp add: genesis_eq)
  have v: "isValidHash (fingerprint_at genesis 2)"
    by (simp add: genesis_fingerprints isValidHash_iff)
  have "\<exists>b'. mineBlock genesis = Some b'"
    using C8_mining_returns_iff [of genesis] genesis_in_sync n v
    by (auto intro: exI [of _ "2::int"])
  with n v genesis_in_sync show ?thesis by simp
qed

text \<open>
  C8 as stated fails on a block whose nonce is \<open>2\<^sup>5\<^sup>3\<close>: the nonce 9007199254862996 is larger
  and yields a hash with four leading zeros, but the loop computes the hash of nonce \<open>2\<^sup>5\<^sup>3\<close>
  again and again and never returns.
\<close>

theorem C8_mining_terminates_counterexample:
  "hash saturated = calculateHash saturated \<and>
   nonce saturated \<le> 9007199254862996 \<and>
   isValidHash (fingerprint_at saturated 9007199254862996) \<and>
   mineBlock saturated = None"
  using saturated_in_sync saturated_beyond saturated_never_returns
  by (simp add: saturated_def)

text \<open>
  C9. \<^verbatim>\<open>mineBlock\<close> on a block whose stored hash already satisfies the difficulty predicate,
  in particular on a block that \<^verbatim>\<open>mineBlock\<close> has just returned, leaves the block as it is:
  the test comes before the first increment.
\<close>

theorem C9_mineBlock_idempotent:
  "(isValidHash (hash b) \<longrightarrow> mineBlock b = Some b) \<and>
   (mineBlock b = Some b' \<longrightarrow> mineBlock b' = Some b')"
  using mineBlock_valid_noop mineBlock_result_valid by blast

theorem C9_mineBlock_idempotent_witness:
  "isValidHash (hash genesis_mined) \<and> mineBlock genesis_mined = Some genesis_mined \<and>
   mineBlock genesis = Some genesis_mined \<and> nonce genesis_mined = 2"
proof -
  have "isValidHash (hash genesis_mined)"
    by (simp add: genesis_mined_def isValidHash_iff)
  moreover from this have "mineBlock genesis_mined = Some genesis_mined"
    using C9_mineBlock_idempotent [of genesis_mined] by blast
  ultimately show ?thesis
    using mine_genesis by (simp add: genesis_mined_def)
qed

text \<open>
  C10, as amended. For every block whose hash is that of its fields, whose nonce is at
  most \<open>2\<^sup>5\<^sup>3\<close> in magnitude and on which \<^verbatim>\<open>mineBlock\<close> returns, the nonce left in the block is
  the smallest nonce, from the nonce before the call on, whose hash satisfies the
  difficulty predicate: the hash left in the block is the hash for that nonce, and no
  nonce from the old one up to, and not including, the new one yields a satisfying hash.
\<close>

theorem C10_mined_nonce_minimal:
  assumes "hash b = calculateHash b"
    and "- 9007199254740992 \<le> nonce b" and "nonce b \<le> 9007199254740992"
    and "mineBlock b = Some b'"
  shows "nonce b \<le> nonce b' \<and>
         hash b' = fingerprint_at b (nonce b') \<and>
         isValidHash (fingerprint_at b (nonce b')) \<and>
         (\<forall>n. nonce b \<le> n \<and> n < nonce b' \<longrightarrow> \<not> isValidHash (fingerprint_at b n))"
  using mined_nonce_least [OF assms] by blast

theorem C10_mined_nonce_minimal_witness:
  "hash genesis = calculateHash genesis \<and> nonce genesis = 0 \<and>
   mineBlock genesis = Some genesis_mined \<and> nonce genesis_mined = 2 \<and>
   \<not> isValidHash (fingerprint_at genesis 0) \<and>
   \<not> isValidHash (fingerprint_at genesis 1) \<and>
   isValidHash (fingerprint_at genesis 2) \<and>
   hash genesis_mined = fingerprint_at genesis 2"
proof -
  have n: "nonce genesis = 0" by (simp add: genesis_eq)
  have m: "nonce genesis_mined = 2" by (simp add: genesis_mined_def)
  have "nonce genesis \<le> nonce genesis_mined \<and>
        hash genesis_mined = fingerprint_at genesis (nonce genesis_mined) \<and>
        isValidHash (fingerprint_at genesis (nonce genesis_mined)) \<and>
        (\<forall>n. nonce genesis \<le> n \<and> n < nonce genesis_mined \<longrightarrow>
             \<not> isValidHash (fingerprint_at genesis n))"
    using C10_mined_nonce_minimal [OF genesis_in_sync _ _ mine_genesis] n by simp
  with n m have "hash genesis_mined = fingerprint_at genesis 2"
    and "isValidHash (fingerprint_at genesis 2)"
    and "\<not> isValidHash (fingerprint_at genesis 0)"
    and "\<not> isValidHash (fingerprint_at genesis 1)"
    by simp_all
  with n m genesis_in_sync mine_genesis show ?thesis by simp
qed

text \<open>
  C10 as stated fails on the mined block whose data was then changed: \<^verbatim>\<open>mineBlock\<close> returns
  with nonce 2, and the hash that corresponds to nonce 2 for the changed fields does not
  satisfy the difficulty predicate.
\<close>

theorem C10_minimal_nonce_counterexample:
  "mineBlock tampered = Some tampered \<and>
   \<not> isValidHash (fingerprint_at tampered (nonce tampered))"
proof -
  have "mineBlock tampered = Some tampered"
    using tampered_valid by (rule mineBlock_valid_noop)
  moreover have "\<not> isValidHash (fingerprint_at tampered (nonce tampered))"
    by (simp add: fingerprint_at_nonce tampered_recomputed isValidHash_iff)
  ultimately show ?thesis ..
qed

end
